theory Spec2Isabelle
  imports Main "HOL-Library.Word"
begin

section \<open>Shared Go types\<close>

text \<open>
  \<open>time.Duration\<close> is an \<open>int64\<close> count of nanoseconds: arithmetic wraps around and
  comparisons are signed. Go errors are values: \<open>Err\<close> is an error of a library or of
  user code, and \<open>Errorf format args errs\<close> is \<open>fmt.Errorf(format, ...)\<close> with its string
  arguments and the errors it wraps or prints.
\<close>

type_synonym Duration = "64 word"

datatype error = Err string | Errorf string "string list" "error list"

record Response =
  StatusCode :: int

text \<open>
  \<open>http.Header\<close> is \<open>map[string][]string\<close>. \<open>Get\<close> and \<open>Set\<close> canonicalise the key with
  \<open>textproto.CanonicalMIMEHeaderKey\<close>, which belongs to the standard library and is taken
  as the parameter \<open>canon\<close>.
\<close>

type_synonym Header = "string \<rightharpoonup> string list"

definition Header_Get :: "(string \<Rightarrow> string) \<Rightarrow> Header \<Rightarrow> string \<Rightarrow> string" where
  "Header_Get canon h key =
     (case h (canon key) of
        None \<Rightarrow> ''''
      | Some vs \<Rightarrow> (case vs of [] \<Rightarrow> '''' | v # _ \<Rightarrow> v))"

definition Header_Set :: "(string \<Rightarrow> string) \<Rightarrow> Header \<Rightarrow> string \<Rightarrow> string \<Rightarrow> Header" where
  "Header_Set canon h key v = h(canon key \<mapsto> [v])"

definition Header_Del :: "(string \<Rightarrow> string) \<Rightarrow> Header \<Rightarrow> string \<Rightarrow> Header" where
  "Header_Del canon h key = h(canon key := None)"

record Request =
  Method :: string
  URL :: string
  Header :: Header

text \<open>
  A base \<open>http.RoundTripper\<close> is outside the repository. It is a function of the request
  and of its own state \<open>'s\<close> that returns the Go pair \<open>(resp, err)\<close>, either of which may
  be nil, and its next state.
\<close>

type_synonym 's RoundTripper =
  "Request \<Rightarrow> 's \<Rightarrow> (Response option \<times> error option) \<times> 's"

section \<open>Retry transport (registry.go, retryRoundTripper)\<close>

record 's retryRoundTripper =
  base :: "'s RoundTripper"
  maxRetries :: int
  minWait :: Duration
  maxWait :: Duration
  retryOn :: "int list"

fun shouldRetry_loop :: "int list \<Rightarrow> int \<Rightarrow> bool" where
  "shouldRetry_loop [] status = False"
| "shouldRetry_loop (s # ss) status = (if status = s then True else shouldRetry_loop ss status)"

definition shouldRetry :: "('s, 'x) retryRoundTripper_scheme \<Rightarrow> int \<Rightarrow> bool" where
  "shouldRetry rt status = shouldRetry_loop (retryOn rt) status"

text \<open>
  The argument of \<open>time.Sleep\<close> before the next attempt:
  \<open>wait := rt.minWait * time.Duration(1<<attempt); if wait > rt.maxWait { wait = rt.maxWait }\<close>,
  in \<open>int64\<close> arithmetic.
\<close>

definition backoff :: "('s, 'x) retryRoundTripper_scheme \<Rightarrow> nat \<Rightarrow> Duration" where
  "backoff rt attempt =
     (let wait = minWait rt * push_bit attempt 1
      in if maxWait rt <s wait then maxWait rt else wait)"

text \<open>
  What a call of \<open>RoundTrip\<close> does: the pair it returns, or the nil-pointer panic of
  \<open>resp.StatusCode\<close> when the base returns \<open>(nil, nil)\<close>; the number of calls of the base
  transport; the arguments of \<open>time.Sleep\<close> in order; the final state of the base.
  The loop counter \<open>attempt\<close> is a Go \<open>int\<close> that starts at 0 and is counted here in \<open>nat\<close>,
  which is the same as long as a call makes fewer than \<open>2^63\<close> rounds; the shift
  \<open>1<<attempt\<close> is \<open>push_bit\<close> on \<open>int64\<close>, 0 from 64 bits on.
\<close>

datatype 'a outcome = Returned 'a | Panicked

record 's run =
  result :: "(Response option \<times> error option) outcome"
  calls :: nat
  sleeps :: "Duration list"
  final :: 's

function retry_loop ::
  "'s retryRoundTripper \<Rightarrow> Request \<Rightarrow> nat \<Rightarrow> Response option \<times> error option \<Rightarrow>
   nat \<Rightarrow> Duration list \<Rightarrow> 's \<Rightarrow> 's run" where
  "retry_loop rt req attempt prev n slept s =
     (if int attempt \<le> maxRetries rt then
        (case base rt req s of
           ((resp, err), s') \<Rightarrow>
             (case err of
                None \<Rightarrow>
                  (case resp of
                     None \<Rightarrow> \<lparr>result = Panicked, calls = Suc n, sleeps = slept, final = s'\<rparr>
                   | Some r \<Rightarrow>
                       if \<not> shouldRetry rt (StatusCode r)
                       then \<lparr>result = Returned (resp, None), calls = Suc n,
                              sleeps = slept, final = s'\<rparr>
                       else retry_loop rt req (Suc attempt) (resp, err) (Suc n)
                              (if int attempt < maxRetries rt
                               then slept @ [backoff rt attempt] else slept) s')
              | Some e \<Rightarrow>
                  retry_loop rt req (Suc attempt) (resp, err) (Suc n)
                    (if int attempt < maxRetries rt
                     then slept @ [backoff rt attempt] else slept) s'))
      else \<lparr>result = Returned prev, calls = n, sleeps = slept, final = s\<rparr>)"
  by pat_completeness auto
termination
  by (relation "measure (\<lambda>(rt, req, attempt, prev, n, slept, s).
        nat (maxRetries rt + 1 - int attempt))") auto

definition retry_RoundTrip :: "'s retryRoundTripper \<Rightarrow> Request \<Rightarrow> 's \<Rightarrow> 's run" where
  "retry_RoundTrip rt req s = retry_loop rt req 0 (None, None) 0 [] s"

text \<open>Mock transports in the style of \<open>mockRoundTripper\<close> of registry_test.go: the state
  counts the calls.\<close>

definition always_status :: "int \<Rightarrow> nat RoundTripper" where
  "always_status c req n = ((Some \<lparr>StatusCode = c\<rparr>, None), Suc n)"

definition always_error :: "error \<Rightarrow> nat RoundTripper" where
  "always_error e req n = ((None, Some e), Suc n)"

definition get_test :: Request where
  "get_test = \<lparr>Method = ''GET'', URL = ''http://test'', Header = Map.empty\<rparr>"

definition refused_rt :: "nat retryRoundTripper" where
  "refused_rt = \<lparr>base = always_error (Err ''connection refused''), maxRetries = 2,
                  minWait = 1000000, maxWait = 10000000, retryOn = [503]\<rparr>"

definition three_strikes_rt :: "nat retryRoundTripper" where
  "three_strikes_rt = \<lparr>base = always_status 503, maxRetries = 2,
                  minWait = 1000000, maxWait = 10000000, retryOn = [503]\<rparr>"

text \<open>The defaults of \<open>DefaultHTTPServiceConfig\<close> (100ms, 2s, 502/503/504) with 38 retries.\<close>

definition long_backoff_rt :: "nat retryRoundTripper" where
  "long_backoff_rt = \<lparr>base = always_status 503, maxRetries = 38,
                  minWait = 100000000, maxWait = 2000000000, retryOn = [502, 503, 504]\<rparr>"

text \<open>The first case of \<open>TestRetryRoundTripper\<close>: 503 on the first two calls, then 200. And a
  transport that answers 503 once and refuses every later connection.\<close>

definition recovering :: "nat RoundTripper" where
  "recovering req n = ((Some \<lparr>StatusCode = (if n < 2 then 503 else 200)\<rparr>, None), Suc n)"

definition recovering_rt :: "nat retryRoundTripper" where
  "recovering_rt = \<lparr>base = recovering, maxRetries = 3,
                     minWait = 1000000, maxWait = 10000000, retryOn = [503]\<rparr>"

definition flaky :: "nat RoundTripper" where
  "flaky req n =
     (if n = 0 then (Some \<lparr>StatusCode = 503\<rparr>, None)
      else (None, Some (Err ''connection refused'')), Suc n)"

definition flaky_rt :: "nat retryRoundTripper" where
  "flaky_rt = \<lparr>base = flaky, maxRetries = 5,
                minWait = 1000000, maxWait = 10000000, retryOn = [503]\<rparr>"

text \<open>Vocabulary for the statements: a result that sends the loop into another round, and
  the state of the base transport after \<open>k\<close> calls.\<close>

definition retryable ::
  "('s, 'x) retryRoundTripper_scheme \<Rightarrow> Response option \<times> error option \<Rightarrow> bool" where
  "retryable rt p =
     (case p of
        (resp, Some e) \<Rightarrow> True
      | (Some r, None) \<Rightarrow> shouldRetry rt (StatusCode r)
      | (None, None) \<Rightarrow> False)"

fun state_after :: "'s RoundTripper \<Rightarrow> Request \<Rightarrow> nat \<Rightarrow> 's \<Rightarrow> 's" where
  "state_after b req 0 s = s"
| "state_after b req (Suc k) s = state_after b req k (snd (b req s))"

section \<open>Header transport (registry.go, headerRoundTripper)\<close>

record 's headerRoundTripper =
  hbase :: "'s RoundTripper"
  headers :: "string \<rightharpoonup> string"

text \<open>
  \<open>for k, v := range rt.headers\<close>: Go visits the keys of a map in an unspecified order, so
  the order \<open>ks\<close> of a run is an argument; it lists the keys of the map, each once.
\<close>

definition range_of :: "string list \<Rightarrow> (string \<rightharpoonup> 'v) \<Rightarrow> bool" where
  "range_of ks m \<longleftrightarrow> distinct ks \<and> set ks = dom m"

fun set_defaults ::
  "(string \<Rightarrow> string) \<Rightarrow> (string \<rightharpoonup> string) \<Rightarrow> string list \<Rightarrow> Header \<Rightarrow> Header" where
  "set_defaults canon hs [] h = h"
| "set_defaults canon hs (k # ks) h =
     (case hs k of
        None \<Rightarrow> set_defaults canon hs ks h
      | Some v \<Rightarrow>
          if Header_Get canon h k = ''''
          then set_defaults canon hs ks (Header_Set canon h k v)
          else set_defaults canon hs ks h)"

text \<open>The request after the loop; \<open>req\<close> is a pointer, so this is the request the base
  transport receives.\<close>

definition outbound ::
  "(string \<Rightarrow> string) \<Rightarrow> ('s, 'x) headerRoundTripper_scheme \<Rightarrow> string list \<Rightarrow> Request \<Rightarrow> Request" where
  "outbound canon rt ks req = req\<lparr>Header := set_defaults canon (headers rt) ks (Header req)\<rparr>"

definition header_RoundTrip ::
  "(string \<Rightarrow> string) \<Rightarrow> 's headerRoundTripper \<Rightarrow> string list \<Rightarrow> Request \<Rightarrow> 's \<Rightarrow>
   (Response option \<times> error option) \<times> 's" where
  "header_RoundTrip canon rt ks req s = hbase rt (outbound canon rt ks req) s"

text \<open>A base transport that answers 200 and keeps the request it was given, as the mock of
  \<open>TestHeaderRoundTripper\<close> does.\<close>

definition capture :: "Request option RoundTripper" where
  "capture req s = ((Some \<lparr>StatusCode = 200\<rparr>, None), Some req)"

section \<open>Registry (registry.go)\<close>

text \<open>
  A value of type \<open>any\<close>: nil, a string, a pointer (the address of an \<open>http.Client\<close> or of
  an \<open>sql.DB\<close>), or a user object built around another value. \<open>context.Context\<close> is passed
  through to the hooks and to the ping.
\<close>

datatype any = Nil | Str string | Ptr nat | Obj string any

datatype Context = Background | WithTimeout Duration

type_synonym 'u shutdown_hook = "Context \<Rightarrow> 'u \<Rightarrow> error option \<times> 'u"

record 'u serviceEntry =
  name :: string
  inst :: any
  shutdown :: "'u shutdown_hook option"

record HTTPServiceConfig =
  BaseURL :: string
  Timeout :: Duration
  MaxRetries :: int
  RetryWaitMin :: Duration
  RetryWaitMax :: Duration
  RetryOnStatus :: "int list"
  MaxIdleConns :: int
  MaxIdleConnsPerHost :: int
  IdleConnTimeout :: Duration
  DefaultHeaders :: "string \<rightharpoonup> string"

text \<open>The transport chain of a client, from the outermost decorator to \<open>http.Transport\<close>.\<close>

datatype transport =
    HTTPTransport int int Duration
  | OtelTransport transport
  | RetryTransport int Duration Duration "int list" transport
  | HeaderTransport "string \<rightharpoonup> string" transport

record Client =
  c_addr :: nat
  Transport :: transport
  c_Timeout :: Duration

record httpServiceFactory =
  h_name :: string
  baseURL :: string
  h_factory :: "Client \<Rightarrow> any"
  h_config :: HTTPServiceConfig
  h_instance :: any
  httpClient :: "Client option"

record DatabaseConfig =
  Driver :: string
  DSN :: string
  MaxOpenConns :: int
  DB_MaxIdleConns :: int
  ConnMaxLifetime :: Duration
  ConnMaxIdleTime :: Duration

record dbServiceFactory =
  d_name :: string
  d_config :: DatabaseConfig
  d_factory :: "(nat \<Rightarrow> any) option"
  d_instance :: any
  db :: "nat option"

text \<open>
  The three stores are Go maps, \<open>order\<close> is the slice of plain registrations. The mutex is
  left out: the model runs one operation at a time. \<open>'u\<close> is the state the shutdown hooks
  of the application act on.
\<close>

record 'u Registry =
  services :: "string \<rightharpoonup> 'u serviceEntry"
  order :: "string list"
  httpServices :: "string \<rightharpoonup> httpServiceFactory"
  dbServices :: "string \<rightharpoonup> dbServiceFactory"

definition NewRegistry :: "'u Registry" where
  "NewRegistry = \<lparr>services = Map.empty, order = [], httpServices = Map.empty,
                   dbServices = Map.empty\<rparr>"

definition Register ::
  "'u Registry \<Rightarrow> string \<Rightarrow> any \<Rightarrow> 'u shutdown_hook option \<Rightarrow> 'u Registry" where
  "Register r nm instance hook =
     r\<lparr>services := (services r)(nm \<mapsto> \<lparr>name = nm, inst = instance, shutdown = hook\<rparr>),
       order := order r @ [nm]\<rparr>"

definition Get_db :: "'u Registry \<Rightarrow> string \<Rightarrow> any \<times> bool" where
  "Get_db r nm =
     (case dbServices r nm of
        Some factory \<Rightarrow>
          if d_instance factory \<noteq> Nil then (d_instance factory, True) else (Nil, False)
      | None \<Rightarrow> (Nil, False))"

definition Get :: "'u Registry \<Rightarrow> string \<Rightarrow> any \<times> bool" where
  "Get r nm =
     (case services r nm of
        Some entry \<Rightarrow> (inst entry, True)
      | None \<Rightarrow>
          (case httpServices r nm of
             Some factory \<Rightarrow>
               if h_instance factory \<noteq> Nil then (h_instance factory, True) else Get_db r nm
           | None \<Rightarrow> Get_db r nm))"

text \<open>The panic value of \<open>MustGet\<close> is \<open>fmt.Sprintf("service %q not found", name)\<close>; the
  model keeps the name.\<close>

datatype panic = ServiceNotFound string

definition MustGet :: "'u Registry \<Rightarrow> string \<Rightarrow> panic + any" where
  "MustGet r nm =
     (case Get r nm of
        (svc, ok) \<Rightarrow> if \<not> ok then Inl (ServiceNotFound nm) else Inr svc)"

subsection \<open>Registration of factories\<close>

definition DefaultHTTPServiceConfig :: HTTPServiceConfig where
  "DefaultHTTPServiceConfig =
     \<lparr>BaseURL = '''', Timeout = 30000000000, MaxRetries = 3, RetryWaitMin = 100000000,
      RetryWaitMax = 2000000000, RetryOnStatus = [502, 503, 504], MaxIdleConns = 100,
      MaxIdleConnsPerHost = 10, IdleConnTimeout = 90000000000, DefaultHeaders = Map.empty\<rparr>"

type_synonym HTTPServiceOption = "HTTPServiceConfig \<Rightarrow> HTTPServiceConfig"

definition WithHTTPBaseURL :: "string \<Rightarrow> HTTPServiceOption" where
  "WithHTTPBaseURL url c = c\<lparr>BaseURL := url\<rparr>"

definition WithHTTPTimeout :: "Duration \<Rightarrow> HTTPServiceOption" where
  "WithHTTPTimeout d c = c\<lparr>Timeout := d\<rparr>"

definition WithHTTPRetries :: "int \<Rightarrow> Duration \<Rightarrow> Duration \<Rightarrow> HTTPServiceOption" where
  "WithHTTPRetries m lo hi c = c\<lparr>MaxRetries := m, RetryWaitMin := lo, RetryWaitMax := hi\<rparr>"

definition WithHTTPHeaders :: "(string \<rightharpoonup> string) \<Rightarrow> HTTPServiceOption" where
  "WithHTTPHeaders hs c = c\<lparr>DefaultHeaders := hs\<rparr>"

text \<open>The registration helpers take the application; they touch only its registry, which
  is what the model passes.\<close>

definition RegisterHTTPService ::
  "'u Registry \<Rightarrow> string \<Rightarrow> (Client \<Rightarrow> any) \<Rightarrow> HTTPServiceOption list \<Rightarrow> 'u Registry" where
  "RegisterHTTPService r nm factory opts =
     (let config = foldl (\<lambda>c opt. opt c) DefaultHTTPServiceConfig opts
      in r\<lparr>httpServices := (httpServices r)(nm \<mapsto>
             \<lparr>h_name = nm, baseURL = BaseURL config, h_factory = factory, h_config = config,
              h_instance = Nil, httpClient = None\<rparr>)\<rparr>)"

definition DefaultDatabaseConfig :: DatabaseConfig where
  "DefaultDatabaseConfig =
     \<lparr>Driver = '''', DSN = '''', MaxOpenConns = 25, DB_MaxIdleConns = 10,
      ConnMaxLifetime = 300000000000, ConnMaxIdleTime = 300000000000\<rparr>"

definition RegisterDatabase :: "'u Registry \<Rightarrow> string \<Rightarrow> DatabaseConfig \<Rightarrow> 'u Registry" where
  "RegisterDatabase r nm config =
     r\<lparr>dbServices := (dbServices r)(nm \<mapsto>
         \<lparr>d_name = nm, d_config = config, d_factory = None, d_instance = Nil, db = None\<rparr>)\<rparr>"

definition RegisterDatabaseService ::
  "'u Registry \<Rightarrow> string \<Rightarrow> DatabaseConfig \<Rightarrow> (nat \<Rightarrow> any) \<Rightarrow> 'u Registry" where
  "RegisterDatabaseService r nm config factory =
     r\<lparr>dbServices := (dbServices r)(nm \<mapsto>
         \<lparr>d_name = nm, d_config = config, d_factory = Some factory, d_instance = Nil,
          db = None\<rparr>)\<rparr>"

text \<open>A sequence of registration calls, from a new registry.\<close>

datatype 'u registration =
    Plain string any "'u shutdown_hook option"
  | HTTPService string "Client \<Rightarrow> any" "HTTPServiceOption list"
  | Database string DatabaseConfig
  | DatabaseService string DatabaseConfig "nat \<Rightarrow> any"

fun register :: "'u Registry \<Rightarrow> 'u registration \<Rightarrow> 'u Registry" where
  "register r (Plain nm instance hook) = Register r nm instance hook"
| "register r (HTTPService nm factory opts) = RegisterHTTPService r nm factory opts"
| "register r (Database nm config) = RegisterDatabase r nm config"
| "register r (DatabaseService nm config factory) = RegisterDatabaseService r nm config factory"

definition registered :: "'u registration list \<Rightarrow> 'u Registry" where
  "registered regs = foldl register NewRegistry regs"

fun plain_names :: "'u registration list \<Rightarrow> string list" where
  "plain_names [] = []"
| "plain_names (Plain nm instance hook # regs) = nm # plain_names regs"
| "plain_names (reg # regs) = plain_names regs"

fun http_names :: "'u registration list \<Rightarrow> string list" where
  "http_names [] = []"
| "http_names (HTTPService nm factory opts # regs) = nm # http_names regs"
| "http_names (reg # regs) = http_names regs"

fun db_names :: "'u registration list \<Rightarrow> string list" where
  "db_names [] = []"
| "db_names (Database nm config # regs) = nm # db_names regs"
| "db_names (DatabaseService nm config factory # regs) = nm # db_names regs"
| "db_names (reg # regs) = db_names regs"

subsection \<open>The world outside the registry\<close>

text \<open>
  \<open>database/sql\<close> and the allocator are outside the repository. The world holds the state
  \<open>user\<close> of the application's hooks, the next free address, the pools opened so far and the
  calls of \<open>Close\<close> in order. What the library answers is the parameter \<open>sql_env\<close>: the
  error of \<open>sql.Open\<close> for a driver and DSN, of \<open>PingContext\<close> under a context, and of
  \<open>Close\<close> for a pool.
\<close>

record Pool =
  p_config :: DatabaseConfig
  p_closed :: bool

record 'u world =
  user :: 'u
  next_addr :: nat
  pools :: "nat \<rightharpoonup> Pool"
  closes :: "nat list"

record sql_env =
  open_err :: "string \<Rightarrow> string \<Rightarrow> error option"
  ping_err :: "Context \<Rightarrow> string \<Rightarrow> string \<Rightarrow> error option"
  close_err :: "nat \<Rightarrow> error option"

definition sql_Open ::
  "sql_env \<Rightarrow> string \<Rightarrow> string \<Rightarrow> 'u world \<Rightarrow> (error + nat) \<times> 'u world" where
  "sql_Open env driver dsn w =
     (case open_err env driver dsn of
        Some err \<Rightarrow> (Inl err, w)
      | None \<Rightarrow>
          (Inr (next_addr w),
           w\<lparr>next_addr := Suc (next_addr w),
             pools := (pools w)(next_addr w \<mapsto>
               \<lparr>p_config = \<lparr>Driver = driver, DSN = dsn, MaxOpenConns = 0, DB_MaxIdleConns = 0,
                             ConnMaxLifetime = 0, ConnMaxIdleTime = 0\<rparr>,
                p_closed = False\<rparr>)\<rparr>))"

text \<open>
  The four setters of \<open>sql.DB\<close>. The pool keeps the fields \<open>maxOpen\<close>, \<open>maxIdleCount\<close>,
  \<open>maxLifetime\<close> and \<open>maxIdleTime\<close> in the settings of \<open>p_config\<close>: an idle count of 0 stands
  for the default of two idle connections and a negative one for none, negative limits and
  durations are stored as 0, and the idle limit never exceeds a positive limit of open
  connections.
\<close>

definition maxIdleConnsLocked :: "Pool \<Rightarrow> int" where
  "maxIdleConnsLocked p =
     (let n = DB_MaxIdleConns (p_config p)
      in if n = 0 then 2 else if n < 0 then 0 else n)"

definition pool_update :: "nat \<Rightarrow> (Pool \<Rightarrow> Pool) \<Rightarrow> 'u world \<Rightarrow> 'u world" where
  "pool_update a f w =
     (case pools w a of
        None \<Rightarrow> w
      | Some p \<Rightarrow> w\<lparr>pools := (pools w)(a \<mapsto> f p)\<rparr>)"

definition SetMaxIdleConns :: "int \<Rightarrow> Pool \<Rightarrow> Pool" where
  "SetMaxIdleConns n p =
     (let p1 = p\<lparr>p_config := (p_config p)\<lparr>DB_MaxIdleConns := (if n > 0 then n else - 1)\<rparr>\<rparr>
      in if MaxOpenConns (p_config p1) > 0 \<and> maxIdleConnsLocked p1 > MaxOpenConns (p_config p1)
         then p1\<lparr>p_config := (p_config p1)\<lparr>DB_MaxIdleConns := MaxOpenConns (p_config p1)\<rparr>\<rparr>
         else p1)"

definition SetMaxOpenConns :: "int \<Rightarrow> Pool \<Rightarrow> Pool" where
  "SetMaxOpenConns n p =
     (let p1 = p\<lparr>p_config := (p_config p)\<lparr>MaxOpenConns := (if n < 0 then 0 else n)\<rparr>\<rparr>;
          syncMaxIdle = (MaxOpenConns (p_config p1) > 0
                         \<and> maxIdleConnsLocked p1 > MaxOpenConns (p_config p1))
      in if syncMaxIdle then SetMaxIdleConns n p1 else p1)"

definition SetConnMaxLifetime :: "Duration \<Rightarrow> Pool \<Rightarrow> Pool" where
  "SetConnMaxLifetime d p =
     p\<lparr>p_config := (p_config p)\<lparr>ConnMaxLifetime := (if d <s 0 then 0 else d)\<rparr>\<rparr>"

definition SetConnMaxIdleTime :: "Duration \<Rightarrow> Pool \<Rightarrow> Pool" where
  "SetConnMaxIdleTime d p =
     p\<lparr>p_config := (p_config p)\<lparr>ConnMaxIdleTime := (if d <s 0 then 0 else d)\<rparr>\<rparr>"

text \<open>The block \<open>Configure pool\<close> of \<open>createInstrumentedDB\<close>: the four calls in order.\<close>

definition db_configure :: "nat \<Rightarrow> DatabaseConfig \<Rightarrow> 'u world \<Rightarrow> 'u world" where
  "db_configure a config w =
     pool_update a (SetConnMaxIdleTime (ConnMaxIdleTime config))
       (pool_update a (SetConnMaxLifetime (ConnMaxLifetime config))
          (pool_update a (SetMaxIdleConns (DB_MaxIdleConns config))
             (pool_update a (SetMaxOpenConns (MaxOpenConns config)) w)))"

definition db_PingContext :: "sql_env \<Rightarrow> Context \<Rightarrow> nat \<Rightarrow> 'u world \<Rightarrow> error option" where
  "db_PingContext env ctx a w =
     (case pools w a of
        None \<Rightarrow> Some (Err ''sql: unknown pool'')
      | Some p \<Rightarrow> ping_err env ctx (Driver (p_config p)) (DSN (p_config p)))"

definition db_Close :: "sql_env \<Rightarrow> nat \<Rightarrow> 'u world \<Rightarrow> error option \<times> 'u world" where
  "db_Close env a w =
     (close_err env a,
      w\<lparr>pools := (case pools w a of
                    None \<Rightarrow> pools w
                  | Some p \<Rightarrow> (pools w)(a \<mapsto> p\<lparr>p_closed := True\<rparr>)),
        closes := closes w @ [a]\<rparr>)"

subsection \<open>Initialize\<close>

text \<open>Of the application, \<open>Initialize\<close> reads whether an OpenTelemetry provider is set
  (\<open>app.otel != nil\<close>) and writes to the logger, which the model leaves out.\<close>

record App =
  otel :: bool

definition createInstrumentedHTTPClient ::
  "App \<Rightarrow> HTTPServiceConfig \<Rightarrow> string \<Rightarrow> 'u world \<Rightarrow> Client \<times> 'u world" where
  "createInstrumentedHTTPClient app config nm w =
     (let transport = HTTPTransport (MaxIdleConns config) (MaxIdleConnsPerHost config)
                        (IdleConnTimeout config);
          rt = (if otel app then OtelTransport transport else transport);
          rt = (if MaxRetries config > 0
                then RetryTransport (MaxRetries config) (RetryWaitMin config)
                       (RetryWaitMax config) (RetryOnStatus config) rt
                else rt);
          rt = (if DefaultHeaders config \<noteq> Map.empty
                then HeaderTransport (DefaultHeaders config) rt
                else rt)
      in (\<lparr>c_addr = next_addr w, Transport = rt, c_Timeout = Timeout config\<rparr>,
          w\<lparr>next_addr := Suc (next_addr w)\<rparr>))"

definition createInstrumentedDB ::
  "sql_env \<Rightarrow> Context \<Rightarrow> App \<Rightarrow> DatabaseConfig \<Rightarrow> string \<Rightarrow> 'u world \<Rightarrow>
   (error + nat) \<times> 'u world" where
  "createInstrumentedDB env ctx app config nm w =
     (case sql_Open env (Driver config) (DSN config) w of
        (Inl err, w1) \<Rightarrow> (Inl err, w1)
      | (Inr a, w1) \<Rightarrow>
          (let w2 = db_configure a config w1
           in case db_PingContext env ctx a w2 of
                Some err \<Rightarrow>
                  (Inl (Errorf ''ping failed: %w'' [] [err]), snd (db_Close env a w2))
              | None \<Rightarrow> (Inr a, w2)))"

text \<open>The two \<open>range\<close> loops of \<open>Initialize\<close>, each over the keys in the order of the run.\<close>

fun init_http ::
  "App \<Rightarrow> string list \<Rightarrow> 'u Registry \<times> 'u world \<Rightarrow> 'u Registry \<times> 'u world" where
  "init_http app [] (r, w) = (r, w)"
| "init_http app (nm # ks) (r, w) =
     (case httpServices r nm of
        None \<Rightarrow> init_http app ks (r, w)
      | Some factory \<Rightarrow>
          (case createInstrumentedHTTPClient app (h_config factory) nm w of
             (client, w') \<Rightarrow>
               init_http app ks
                 (r\<lparr>httpServices := (httpServices r)(nm \<mapsto>
                      factory\<lparr>httpClient := Some client,
                              h_instance := h_factory factory client\<rparr>)\<rparr>, w')))"

fun init_db ::
  "sql_env \<Rightarrow> Context \<Rightarrow> App \<Rightarrow> string list \<Rightarrow> 'u Registry \<times> 'u world \<Rightarrow>
   error option \<times> 'u Registry \<times> 'u world" where
  "init_db env ctx app [] (r, w) = (None, r, w)"
| "init_db env ctx app (nm # ks) (r, w) =
     (case dbServices r nm of
        None \<Rightarrow> init_db env ctx app ks (r, w)
      | Some factory \<Rightarrow>
          (case createInstrumentedDB env ctx app (d_config factory) nm w of
             (Inl err, w') \<Rightarrow>
               (Some (Errorf ''failed to initialize database %q: %w'' [nm] [err]), r, w')
           | (Inr a, w') \<Rightarrow>
               init_db env ctx app ks
                 (r\<lparr>dbServices := (dbServices r)(nm \<mapsto>
                      factory\<lparr>db := Some a,
                              d_instance := (case d_factory factory of
                                               Some f \<Rightarrow> f a
                                             | None \<Rightarrow> Ptr a)\<rparr>)\<rparr>, w')))"

definition Initialize ::
  "sql_env \<Rightarrow> Context \<Rightarrow> App \<Rightarrow> string list \<Rightarrow> string list \<Rightarrow> 'u Registry \<Rightarrow> 'u world \<Rightarrow>
   error option \<times> 'u Registry \<times> 'u world" where
  "Initialize env ctx app hs ds r w = init_db env ctx app ds (init_http app hs (r, w))"

subsection \<open>Shutdown\<close>




section \<open>Rate limiting middleware\<close>

text \<open>
  \<open>time.Time\<close> is an instant in nanoseconds and \<open>Add\<close> moves it by a duration. The request
  of a handler carries its \<open>RemoteAddr\<close>; an \<open>http.ResponseWriter\<close> collects the headers, the
  status and the body. A handler acts on the writer and on the state \<open>'a\<close> of the
  application, which includes the state of a store the application supplies.
\<close>

type_synonym Time = int

definition Time_Add :: "Time \<Rightarrow> Duration \<Rightarrow> Time" where
  "Time_Add t d = t + sint d"

record ServerRequest =
  RemoteAddr :: string

record ResponseWriter =
  rw_header :: Header
  rw_status :: "int option"
  rw_body :: string

type_synonym 'a Handler = "ResponseWriter \<Rightarrow> ServerRequest \<Rightarrow> 'a \<Rightarrow> ResponseWriter \<times> 'a"

text \<open>The interface \<open>RateLimitStore\<close>: the bundled implementation, a struct without fields, or
  one of the application, which may read the clock and keep state.\<close>

datatype 'a RateLimitStore =
    InMemoryRateLimitStore
  | CustomStore "Time \<Rightarrow> string \<Rightarrow> int \<Rightarrow> Duration \<Rightarrow> 'a \<Rightarrow> (bool \<times> int \<times> Time) \<times> 'a"

definition InMemoryRateLimitStore_Allow ::
  "Time \<Rightarrow> string \<Rightarrow> int \<Rightarrow> Duration \<Rightarrow> bool \<times> int \<times> Time" where
  "InMemoryRateLimitStore_Allow now key limit window = (True, limit, Time_Add now window)"

fun Allow ::
  "'a RateLimitStore \<Rightarrow> Time \<Rightarrow> string \<Rightarrow> int \<Rightarrow> Duration \<Rightarrow> 'a \<Rightarrow> (bool \<times> int \<times> Time) \<times> 'a" where
  "Allow InMemoryRateLimitStore now key limit window st =
     (InMemoryRateLimitStore_Allow now key limit window, st)"
| "Allow (CustomStore f) now key limit window st = f now key limit window st"

record 'a RateLimitConfig =
  Requests :: int
  Window :: Duration
  KeyFunc :: "(ServerRequest \<Rightarrow> string) option"
  Store :: "'a RateLimitStore option"

text \<open>
  \<open>http.Error\<close> and the conversions \<open>string(rune(n))\<close> and \<open>Format(time.RFC3339)\<close> belong to Go
  and its library: the conversions are the parameters \<open>rune_string\<close> and \<open>rfc3339\<close>, as
  \<open>canon\<close> is for the header keys; \<open>now\<close> is what \<open>time.Now()\<close> returns during the call.
  \<open>http.Error\<close> is the one of Go 1.23 and later: it deletes \<open>Content-Length\<close>, sets the two
  headers, writes the status and then the message and a newline.
\<close>

definition http_Error ::
  "(string \<Rightarrow> string) \<Rightarrow> ResponseWriter \<Rightarrow> string \<Rightarrow> int \<Rightarrow> ResponseWriter" where
  "http_Error canon w msg code =
     w\<lparr>rw_header := Header_Set canon
                       (Header_Set canon (Header_Del canon (rw_header w) ''Content-Length'')
                          ''Content-Type'' ''text/plain; charset=utf-8'')
                       ''X-Content-Type-Options'' ''nosniff'',
       rw_status := Some code,
       rw_body := rw_body w @ msg @ [CHR 0x0A]\<rparr>"

definition RateLimit ::
  "(string \<Rightarrow> string) \<Rightarrow> (int \<Rightarrow> string) \<Rightarrow> (Time \<Rightarrow> string) \<Rightarrow> Time \<Rightarrow>
   'a RateLimitConfig \<Rightarrow> 'a Handler \<Rightarrow> 'a Handler" where
  "RateLimit canon rune_string rfc3339 now config next w r st =
     (let keyFunc = (case KeyFunc config of None \<Rightarrow> RemoteAddr | Some f \<Rightarrow> f);
          store = (case Store config of None \<Rightarrow> InMemoryRateLimitStore | Some s \<Rightarrow> s);
          key = keyFunc r
      in case Allow store now key (Requests config) (Window config) st of
           ((allowed, remaining, resetAt), st') \<Rightarrow>
             (let h1 = Header_Set canon (rw_header w) ''X-RateLimit-Limit''
                         (rune_string (Requests config));
                  h2 = Header_Set canon h1 ''X-RateLimit-Remaining'' (rune_string remaining);
                  h3 = Header_Set canon h2 ''X-RateLimit-Reset'' (rfc3339 resetAt);
                  w' = w\<lparr>rw_header := h3\<rparr>
              in if \<not> allowed
                 then (http_Error canon w' ''rate limit exceeded'' 429, st')
                 else next w' r st'))"

section \<open>Inputs of the examples\<close>

text \<open>
  \<open>textproto.CanonicalMIMEHeaderKey\<close> returns a key that is already in canonical form, such as
  \<open>Authorization\<close> or \<open>User-Agent\<close>, as it is; the examples use such keys only.
\<close>

definition keep_key :: "string \<Rightarrow> string" where
  "keep_key k = k"

text \<open>The second case of \<open>TestHeaderRoundTripper\<close>: the caller has set \<open>Authorization\<close>.\<close>

definition auth_rt :: "Request option headerRoundTripper" where
  "auth_rt = \<lparr>hbase = capture, headers = [''Authorization'' \<mapsto> ''Bearer default'']\<rparr>"

definition override_request :: Request where
  "override_request = \<lparr>Method = ''GET'', URL = ''http://test'',
                         Header = [''Authorization'' \<mapsto> [''Bearer override'']]\<rparr>"

text \<open>A caller that has set \<open>User-Agent\<close> to the empty string, which is how a Go client asks
  that no such header be sent, under a default \<open>User-Agent\<close>.\<close>

definition agent_rt :: "Request option headerRoundTripper" where
  "agent_rt = \<lparr>hbase = capture, headers = [''User-Agent'' \<mapsto> ''volt/1.0'']\<rparr>"

definition agent_request :: Request where
  "agent_request = \<lparr>Method = ''GET'', URL = ''http://test'',
                      Header = [''User-Agent'' \<mapsto> ['''']]\<rparr>"

text \<open>Registries of the examples. Their hooks act on a log of names, as the hooks of
  \<open>TestRegistry\<close> do; \<open>value_registry\<close> is the registry of its \<open>MustGet\<close> case.\<close>

definition value_registry :: "string list Registry" where
  "value_registry = Register NewRegistry ''test'' (Str ''value'') None"

definition api_client :: "Client \<Rightarrow> any" where
  "api_client c = Obj ''api'' (Ptr (c_addr c))"

definition pg_config :: DatabaseConfig where
  "pg_config = DefaultDatabaseConfig\<lparr>Driver := ''postgres'', DSN := ''postgres://localhost/db''\<rparr>"

text \<open>A database reached at every DSN, and one whose ping is refused at every DSN.\<close>

definition db_up :: sql_env where
  "db_up = \<lparr>open_err = (\<lambda>driver dsn. None), ping_err = (\<lambda>ctx driver dsn. None),
            close_err = (\<lambda>a. None)\<rparr>"


definition fresh :: "string list world" where
  "fresh = \<lparr>user = [], next_addr = 0, pools = Map.empty, closes = []\<rparr>"

definition no_otel :: App where
  "no_otel = \<lparr>otel = False\<rparr>"

text \<open>The name \<open>svc\<close> is registered as a plain service and as an HTTP factory, the name
  \<open>api\<close> as an HTTP and as a database factory.\<close>

definition shared_names :: "string list registration list" where
  "shared_names =
     [Plain ''svc'' (Str ''plain'') None, HTTPService ''svc'' api_client [],
      HTTPService ''api'' api_client [], Database ''api'' pg_config,
      Database ''primary'' pg_config]"

definition shared_booted :: "error option \<times> string list Registry \<times> string list world" where
  "shared_booted =
     Initialize db_up Background no_otel [''svc'', ''api''] [''api'', ''primary'']
       (registered shared_names) fresh"

text \<open>One name registered as a plain service and as a database.\<close>

definition twice_named :: "string list Registry" where
  "twice_named = registered [Plain ''db'' (Str ''cache'') None, Database ''db'' pg_config]"

section \<open>Vocabulary for the statements about the lifecycle\<close>

text \<open>
  The hooks of a sequence of registrations with their names, in the order of the calls; a
  list of hooks run one after the other, each failure kept under the name of its hook; the
  pools held by the database factories along an order of their names; the failures of
  closing them.
\<close>

fun plain_hooks :: "'u registration list \<Rightarrow> (string \<times> 'u shutdown_hook option) list" where
  "plain_hooks [] = []"
| "plain_hooks (Plain nm instance hook # regs) = (nm, hook) # plain_hooks regs"
| "plain_hooks (reg # regs) = plain_hooks regs"




text \<open>Hooks in the style of \<open>TestRegistry\<close>: each appends its name to the log; the second
  kind also fails.\<close>

definition log_hook :: "string \<Rightarrow> string list shutdown_hook" where
  "log_hook nm ctx u = (None, u @ [nm])"

definition failing_hook :: "string \<Rightarrow> string list shutdown_hook" where
  "failing_hook nm ctx u = (Some (Err ''hook failed''), u @ [nm])"

definition close_fails :: sql_env where
  "close_fails = \<lparr>open_err = (\<lambda>driver dsn. None), ping_err = (\<lambda>ctx driver dsn. None),
                  close_err = (\<lambda>a. Some (Err ''close failed''))\<rparr>"

definition three_services :: "string list registration list" where
  "three_services =
     [Plain ''first'' (Str ''a'') (Some (log_hook ''first'')),
      Database ''primary'' pg_config,
      Plain ''second'' (Str ''b'') (Some (failing_hook ''second'')),
      Plain ''third'' (Str ''c'') (Some (log_hook ''third''))]"

definition three_booted :: "error option \<times> string list Registry \<times> string list world" where
  "three_booted =
     Initialize close_fails Background no_otel [] [''primary''] (registered three_services) fresh"



text \<open>One HTTP factory, initialized once and then a second time.\<close>

definition api_only :: "string list registration list" where
  "api_only = [HTTPService ''api'' api_client []]"

definition api_once :: "error option \<times> string list Registry \<times> string list world" where
  "api_once = Initialize db_up Background no_otel [''api''] [] (registered api_only) fresh"

definition api_again :: "error option \<times> string list Registry \<times> string list world" where
  "api_again =
     Initialize db_up Background no_otel [''api''] [] (fst (snd api_once)) (snd (snd api_once))"






section \<open>Properties of the retry transport\<close>

lemma shouldRetry_loop_iff: "shouldRetry_loop ss status \<longleftrightarrow> status \<in> set ss"
  by (induction ss) auto

lemma shouldRetry_iff: "shouldRetry rt status \<longleftrightarrow> status \<in> set (retryOn rt)"
  by (simp add: shouldRetry_def shouldRetry_loop_iff)

declare retry_loop.simps [simp del]

text \<open>One round of the loop, by the kind of result the base transport gives.\<close>

lemma retry_loop_retry:
  assumes "int attempt \<le> maxRetries rt" and "base rt req s = (p, s')" and "retryable rt p"
  shows "retry_loop rt req attempt prev n slept s =
           retry_loop rt req (Suc attempt) p (Suc n)
             (if int attempt < maxRetries rt then slept @ [backoff rt attempt] else slept) s'"
  using assms
  by (subst retry_loop.simps)
     (auto simp: retryable_def split: option.splits prod.splits)

lemma retry_loop_stop:
  assumes "int attempt \<le> maxRetries rt" and "base rt req s = (p, s')" and "\<not> retryable rt p"
  shows "retry_loop rt req attempt prev n slept s =
           \<lparr>result = (if p = (None, None) then Panicked else Returned p),
            calls = Suc n, sleeps = slept, final = s'\<rparr>"
  using assms
  by (subst retry_loop.simps)
     (auto simp: retryable_def split: option.splits prod.splits)

lemma retry_loop_past:
  assumes "\<not> int attempt \<le> maxRetries rt"
  shows "retry_loop rt req attempt prev n slept s =
           \<lparr>result = Returned prev, calls = n, sleeps = slept, final = s\<rparr>"
  using assms by (subst retry_loop.simps) simp

text \<open>When every result is retryable the loop runs to the end: it calls the base once per
  attempt, sleeps before each attempt but the first, and returns the last pair.\<close>

lemma retry_loop_exhausts:
  assumes "\<forall>k. int (attempt + k) \<le> maxRetries rt \<longrightarrow>
             retryable rt (fst (base rt req (state_after (base rt) req k s)))"
    and "int attempt \<le> maxRetries rt + 1"
    and "d = nat (maxRetries rt + 1) - attempt"
  shows "retry_loop rt req attempt prev n slept s =
           \<lparr>result = Returned (if int attempt \<le> maxRetries rt
                               then fst (base rt req (state_after (base rt) req
                                           (nat (maxRetries rt) - attempt) s))
                               else prev),
            calls = n + d,
            sleeps = slept @ map (backoff rt) [attempt ..< nat (maxRetries rt)],
            final = state_after (base rt) req d s\<rparr>"
  using assms
proof (induction d arbitrary: attempt prev n slept s)
  case 0
  then have "\<not> int attempt \<le> maxRetries rt" by linarith
  then show ?case
    by (subst retry_loop.simps) auto
next
  case (Suc d)
  then have le: "int attempt \<le> maxRetries rt" by linarith
  obtain p s' where b: "base rt req s = (p, s')"
    by (cases "base rt req s")
  from Suc.prems(1)[rule_format, of 0] le b have r: "retryable rt p"
    by simp
  have step: "\<forall>k. int (Suc attempt + k) \<le> maxRetries rt \<longrightarrow>
             retryable rt (fst (base rt req (state_after (base rt) req k s')))"
  proof (intro allI impI)
    fix k assume "int (Suc attempt + k) \<le> maxRetries rt"
    then have "int (attempt + Suc k) \<le> maxRetries rt" by simp
    from Suc.prems(1)[rule_format, OF this] b show
      "retryable rt (fst (base rt req (state_after (base rt) req k s')))" by simp
  qed
  have d: "d = nat (maxRetries rt + 1) - Suc attempt" using Suc.prems(3) by linarith
  have bound: "int (Suc attempt) \<le> maxRetries rt + 1" using le by simp
  note IH = Suc.IH[OF step bound d]
  show ?case
  proof (cases "int attempt < maxRetries rt")
    case True
    then have m: "nat (maxRetries rt) - attempt = Suc (nat (maxRetries rt) - Suc attempt)"
      and u: "[attempt ..< nat (maxRetries rt)] = attempt # [Suc attempt ..< nat (maxRetries rt)]"
      by (auto simp: upt_conv_Cons)
    show ?thesis
      using True le b by (simp add: retry_loop_retry[OF le b r] IH m u)
  next
    case False
    with le have e: "int attempt = maxRetries rt" by simp
    then have m: "nat (maxRetries rt) - attempt = 0" by simp
    show ?thesis
      using False le b e by (simp add: retry_loop_retry[OF le b r] IH m)
  qed
qed

lemma retry_exhausted:
  assumes "0 \<le> maxRetries rt"
    and "\<forall>t. retryable rt (fst (base rt req t))"
  shows "retry_RoundTrip rt req s =
           \<lparr>result = Returned (fst (base rt req
                        (state_after (base rt) req (nat (maxRetries rt)) s))),
            calls = nat (maxRetries rt) + 1,
            sleeps = map (backoff rt) [0 ..< nat (maxRetries rt)],
            final = state_after (base rt) req (nat (maxRetries rt) + 1) s\<rparr>"
  using assms
  by (simp add: retry_RoundTrip_def nat_add_distrib
        retry_loop_exhausts[where d = "nat (maxRetries rt + 1)" and attempt = 0, simplified])

text \<open>The loop only adds to the count of calls and to the sleeps already made.\<close>

lemma retry_loop_calls_ge: "n \<le> calls (retry_loop rt req attempt prev n slept s)"
proof (induction "nat (maxRetries rt + 1) - attempt" arbitrary: attempt prev n slept s)
  case 0
  then have "\<not> int attempt \<le> maxRetries rt" by linarith
  then show ?case by (simp add: retry_loop_past)
next
  case (Suc d)
  then have le: "int attempt \<le> maxRetries rt" by linarith
  obtain p s' where b: "base rt req s = (p, s')"
    by (cases "base rt req s")
  show ?case
  proof (cases "retryable rt p")
    case False
    then show ?thesis by (simp add: retry_loop_stop[OF le b])
  next
    case True
    have "d = nat (maxRetries rt + 1) - Suc attempt" using Suc.hyps(2) by linarith
    from Suc.hyps(1)[OF this] show ?thesis
      by (simp add: retry_loop_retry[OF le b True] Suc_leD)
  qed
qed

lemma retry_loop_sleeps_prefix:
  "take (length slept) (sleeps (retry_loop rt req attempt prev n slept s)) = slept"
proof (induction "nat (maxRetries rt + 1) - attempt" arbitrary: attempt prev n slept s)
  case 0
  then have "\<not> int attempt \<le> maxRetries rt" by linarith
  then show ?case by (simp add: retry_loop_past)
next
  case (Suc d)
  then have le: "int attempt \<le> maxRetries rt" by linarith
  obtain p s' where b: "base rt req s = (p, s')"
    by (cases "base rt req s")
  show ?case
  proof (cases "retryable rt p")
    case False
    then show ?thesis by (simp add: retry_loop_stop[OF le b])
  next
    case True
    have d: "d = nat (maxRetries rt + 1) - Suc attempt" using Suc.hyps(2) by linarith
    show ?thesis
    proof (cases "int attempt < maxRetries rt")
      case False
      with Suc.hyps(1)[OF d] show ?thesis
        by (simp add: retry_loop_retry[OF le b True])
    next
      case lt: True
      let ?r = "retry_loop rt req (Suc attempt) p (Suc n) (slept @ [backoff rt attempt]) s'"
      from Suc.hyps(1)[OF d, where slept = "slept @ [backoff rt attempt]" and prev = p
                         and n = "Suc n" and s = s']
      have "take (Suc (length slept)) (sleeps ?r) = slept @ [backoff rt attempt]" by simp
      then have "take (length slept) (take (Suc (length slept)) (sleeps ?r)) = slept" by simp
      then have "take (length slept) (sleeps ?r) = slept" by (simp add: min_def)
      then show ?thesis
        using lt by (simp add: retry_loop_retry[OF le b True])
    qed
  qed
qed

text \<open>While the results are retryable and attempts remain, the loop goes on, one call and
  one sleep per round.\<close>

lemma retryable_iff:
  "retryable rt (resp, err) \<longleftrightarrow>
     err \<noteq> None \<or> (\<exists>r. resp = Some r \<and> StatusCode r \<in> set (retryOn rt))"
  by (auto simp: retryable_def shouldRetry_iff split: option.splits)

lemma retry_loop_prefix:
  assumes "\<forall>j<k. retryable rt (fst (base rt req (state_after (base rt) req j s)))"
    and "int (a + k) \<le> maxRetries rt"
  shows "\<exists>prev'. retry_loop rt req a prev n slept s =
           retry_loop rt req (a + k) prev' (n + k)
             (slept @ map (backoff rt) [a ..< a + k]) (state_after (base rt) req k s)"
  using assms
proof (induction k arbitrary: a prev n slept s)
  case 0
  then show ?case by (intro exI[of _ prev]) simp
next
  case (Suc k)
  then have le: "int a \<le> maxRetries rt" and lt: "int a < maxRetries rt" by simp_all
  obtain p s' where b: "base rt req s = (p, s')"
    by (cases "base rt req s")
  from Suc.prems(1)[rule_format, of 0] b have r: "retryable rt p" by simp
  have step: "\<forall>j<k. retryable rt (fst (base rt req (state_after (base rt) req j s')))"
  proof (intro allI impI)
    fix j assume "j < k"
    then have "Suc j < Suc k" by simp
    from Suc.prems(1)[rule_format, OF this] b
    show "retryable rt (fst (base rt req (state_after (base rt) req j s')))" by simp
  qed
  have bound: "int (Suc a + k) \<le> maxRetries rt" using Suc.prems(2) by simp
  from Suc.IH[OF step bound, of p "Suc n" "slept @ [backoff rt a]"] obtain prev' where
    "retry_loop rt req (Suc a) p (Suc n) (slept @ [backoff rt a]) s' =
       retry_loop rt req (Suc a + k) prev' (Suc n + k)
         ((slept @ [backoff rt a]) @ map (backoff rt) [Suc a ..< Suc a + k])
         (state_after (base rt) req k s')"
    by blast
  moreover have "[a ..< a + Suc k] = a # [Suc a ..< Suc a + k]"
    by (simp add: upt_conv_Cons)
  ultimately show ?case
    using lt b by (intro exI[of _ prev']) (simp add: retry_loop_retry[OF le b r])
qed

text \<open>
  Claim C1, as stated, fails: a transport-level error is not returned at once. With
  \<open>maxRetries = 2\<close> and a base transport that answers every call with
  \<open>(nil, connection refused)\<close>, \<open>RoundTrip\<close> calls the base three times and sleeps twice
  before it returns the error.
\<close>

theorem retry_transport_error_counterexample:
  "base refused_rt get_test 0 = ((None, Some (Err ''connection refused'')), 1)
   \<and> retry_RoundTrip refused_rt get_test 0 =
       \<lparr>result = Returned (None, Some (Err ''connection refused'')), calls = 3,
        sleeps = [1000000, 2000000], final = 3\<rparr>"
  by (simp add: retry_RoundTrip_def refused_rt_def always_error_def retry_loop.simps
        backoff_def)

text \<open>
  Claim C1, amended, for \<open>maxRetries \<ge> 0\<close> and every attempt \<open>k \<le> maxRetries\<close> that the loop
  reaches, that is, every earlier attempt gave a non-nil error or a response whose status
  is in the retry-on set. Let \<open>(resp, err)\<close> be what the base transport returns on attempt
  \<open>k\<close>. The loop has slept the backoff of each earlier attempt, and
  \<^item> a response with nil error and a status outside the retry-on set is returned at once;
  \<^item> \<open>(nil, nil)\<close> makes \<open>RoundTrip\<close> panic;
  \<^item> a non-nil error, like a response whose status is in the retry-on set, is returned
    unchanged when \<open>k = maxRetries\<close>, and otherwise is followed by a sleep of the backoff of
    attempt \<open>k\<close> and a further call of the base transport.
  So a transport-level error on any attempt is retried exactly as a qualifying status is,
  and only a nil-error response outside the set ends the loop before the last attempt.
\<close>

theorem retry_transport_error_is_retried:
  assumes "0 \<le> maxRetries rt" and "k \<le> nat (maxRetries rt)"
    and "\<forall>j<k. \<exists>resp err. fst (base rt req (state_after (base rt) req j s)) = (resp, err)
            \<and> (err \<noteq> None \<or> (\<exists>r. resp = Some r \<and> StatusCode r \<in> set (retryOn rt)))"
    and "base rt req (state_after (base rt) req k s) = ((resp, err), s')"
  shows "(err = None \<and> (\<exists>r. resp = Some r \<and> StatusCode r \<notin> set (retryOn rt)) \<longrightarrow>
            retry_RoundTrip rt req s =
              \<lparr>result = Returned (resp, None), calls = Suc k,
               sleeps = map (backoff rt) [0 ..< k], final = s'\<rparr>)
         \<and> (err = None \<and> resp = None \<longrightarrow>
            retry_RoundTrip rt req s =
              \<lparr>result = Panicked, calls = Suc k,
               sleeps = map (backoff rt) [0 ..< k], final = s'\<rparr>)
         \<and> ((err \<noteq> None \<or> (\<exists>r. resp = Some r \<and> StatusCode r \<in> set (retryOn rt)))
             \<and> k = nat (maxRetries rt) \<longrightarrow>
            retry_RoundTrip rt req s =
              \<lparr>result = Returned (resp, err), calls = Suc k,
               sleeps = map (backoff rt) [0 ..< k], final = s'\<rparr>)
         \<and> ((err \<noteq> None \<or> (\<exists>r. resp = Some r \<and> StatusCode r \<in> set (retryOn rt)))
             \<and> k < nat (maxRetries rt) \<longrightarrow>
            Suc k < calls (retry_RoundTrip rt req s)
            \<and> take (Suc k) (sleeps (retry_RoundTrip rt req s)) = map (backoff rt) [0 ..< Suc k])"
proof -
  let ?sk = "state_after (base rt) req k s"
  have le: "int k \<le> maxRetries rt" using assms(1,2) by linarith
  have pre: "\<forall>j<k. retryable rt (fst (base rt req (state_after (base rt) req j s)))"
  proof (intro allI impI)
    fix j assume "j < k"
    with assms(3) obtain resp err where
      "fst (base rt req (state_after (base rt) req j s)) = (resp, err)"
      "err \<noteq> None \<or> (\<exists>r. resp = Some r \<and> StatusCode r \<in> set (retryOn rt))"
      by blast
    then show "retryable rt (fst (base rt req (state_after (base rt) req j s)))"
      by (simp add: retryable_iff)
  qed
  from retry_loop_prefix[OF pre, of 0 "(None, None)" 0 "[]"] le obtain prev' where
    run: "retry_RoundTrip rt req s =
            retry_loop rt req k prev' k (map (backoff rt) [0 ..< k]) ?sk"
    by (auto simp: retry_RoundTrip_def)
  show ?thesis
  proof (cases "retryable rt (resp, err)")
    case False
    then have n: "\<not> (err \<noteq> None \<or> (\<exists>r. resp = Some r \<and> StatusCode r \<in> set (retryOn rt)))"
      by (simp add: retryable_iff)
    from retry_loop_stop[OF le assms(4) False] show ?thesis
      using n by (auto simp: run)
  next
    case True
    then have y: "err \<noteq> None \<or> (\<exists>r. resp = Some r \<and> StatusCode r \<in> set (retryOn rt))"
      by (simp add: retryable_iff)
    note step = retry_loop_retry[OF le assms(4) True]
    show ?thesis
    proof (cases "k = nat (maxRetries rt)")
      case True
      then have "\<not> int k < maxRetries rt" "\<not> int (Suc k) \<le> maxRetries rt"
        using assms(1) by simp_all
      then have "retry_RoundTrip rt req s =
              \<lparr>result = Returned (resp, err), calls = Suc k,
               sleeps = map (backoff rt) [0 ..< k], final = s'\<rparr>"
        by (simp add: run step retry_loop_past)
      then show ?thesis using y True by auto
    next
      case False
      with assms(1,2) have lt: "int k < maxRetries rt" and le1: "int (Suc k) \<le> maxRetries rt"
        by linarith+
      let ?r = "retry_loop rt req (Suc k) (resp, err) (Suc k)
                  (map (backoff rt) [0 ..< k] @ [backoff rt k]) s'"
      have r: "retry_RoundTrip rt req s = ?r"
        using lt by (simp add: run step)
      obtain p t where b: "base rt req s' = (p, t)"
        by (cases "base rt req s'")
      have c: "Suc (Suc k) \<le> calls ?r"
      proof (cases "retryable rt p")
        case False
        then show ?thesis by (simp add: retry_loop_stop[OF le1 b])
      next
        case True
        then show ?thesis
          using retry_loop_calls_ge[of "Suc (Suc k)" rt req "Suc (Suc k)"]
          by (simp add: retry_loop_retry[OF le1 b True])
      qed
      have "take (Suc k) (sleeps ?r) = map (backoff rt) [0 ..< k] @ [backoff rt k]"
        using retry_loop_sleeps_prefix[of "map (backoff rt) [0 ..< k] @ [backoff rt k]"
                rt req "Suc k"] by simp
      then have "take (Suc k) (sleeps ?r) = map (backoff rt) [0 ..< Suc k]" by simp
      with c show ?thesis
        using y False lt by (auto simp: r)
    qed
  qed
qed

lemma recovering_after: "state_after recovering req k n = n + k"
  by (induction k arbitrary: n) (simp_all add: recovering_def)

lemma flaky_after: "state_after flaky req k n = n + k"
  by (induction k arbitrary: n) (simp_all add: flaky_def)

theorem retry_transport_error_is_retried_witness:
  "retry_RoundTrip flaky_rt get_test 0 =
     \<lparr>result = Returned (None, Some (Err ''connection refused'')), calls = 6,
      sleeps = [1000000, 2000000, 4000000, 8000000, 10000000], final = 6\<rparr>
   \<and> retry_RoundTrip recovering_rt get_test 0 =
       \<lparr>result = Returned (Some \<lparr>StatusCode = 200\<rparr>, None), calls = 3,
        sleeps = [1000000, 2000000], final = 3\<rparr>
   \<and> 2 < calls (retry_RoundTrip flaky_rt get_test 0)"
proof -
  have f: "0 \<le> maxRetries flaky_rt" "5 \<le> nat (maxRetries flaky_rt)"
    "1 \<le> nat (maxRetries flaky_rt)"
    "base flaky_rt get_test (state_after (base flaky_rt) get_test 5 0) =
       ((None, Some (Err ''connection refused'')), 6)"
    "base flaky_rt get_test (state_after (base flaky_rt) get_test 1 0) =
       ((None, Some (Err ''connection refused'')), 2)"
    by (simp_all add: flaky_rt_def flaky_after) (simp_all add: flaky_def)
  have fa: "\<forall>j<5. \<exists>resp err.
              fst (base flaky_rt get_test (state_after (base flaky_rt) get_test j 0)) = (resp, err)
              \<and> (err \<noteq> None \<or> (\<exists>r. resp = Some r \<and> StatusCode r \<in> set (retryOn flaky_rt)))"
    by (simp add: flaky_rt_def flaky_after) (simp add: flaky_def)
  have f1: "\<forall>j<1. \<exists>resp err.
              fst (base flaky_rt get_test (state_after (base flaky_rt) get_test j 0)) = (resp, err)
              \<and> (err \<noteq> None \<or> (\<exists>r. resp = Some r \<and> StatusCode r \<in> set (retryOn flaky_rt)))"
    by (simp add: flaky_rt_def flaky_after) (simp add: flaky_def)
  have fs: "map (backoff flaky_rt) [0 ..< 5] = [1000000, 2000000, 4000000, 8000000, 10000000]"
    by (simp add: upt_conv_Cons backoff_def flaky_rt_def push_bit_eq_mult word_sless_alt)
  have r: "0 \<le> maxRetries recovering_rt" "2 \<le> nat (maxRetries recovering_rt)"
    "base recovering_rt get_test (state_after (base recovering_rt) get_test 2 0) =
       ((Some \<lparr>StatusCode = 200\<rparr>, None), 3)"
    by (simp_all add: recovering_rt_def recovering_after) (simp_all add: recovering_def)
  have ra: "\<forall>j<2. \<exists>resp err.
              fst (base recovering_rt get_test (state_after (base recovering_rt) get_test j 0))
                = (resp, err)
              \<and> (err \<noteq> None
                  \<or> (\<exists>r. resp = Some r \<and> StatusCode r \<in> set (retryOn recovering_rt)))"
    by (simp add: recovering_rt_def recovering_after) (simp add: recovering_def)
  have rs: "map (backoff recovering_rt) [0 ..< 2] = [1000000, 2000000]"
    by (simp add: upt_conv_Cons backoff_def recovering_rt_def push_bit_eq_mult word_sless_alt)
  have ro: "200 \<notin> set (retryOn recovering_rt)"
    by (simp add: recovering_rt_def)
  from retry_transport_error_is_retried[OF f(1,2) fa f(4)]
  have a: "retry_RoundTrip flaky_rt get_test 0 =
     \<lparr>result = Returned (None, Some (Err ''connection refused'')), calls = 6,
      sleeps = [1000000, 2000000, 4000000, 8000000, 10000000], final = 6\<rparr>"
    by (simp add: fs) (simp add: flaky_rt_def)
  from retry_transport_error_is_retried[OF r(1,2) ra r(3)] ro
  have b: "retry_RoundTrip recovering_rt get_test 0 =
       \<lparr>result = Returned (Some \<lparr>StatusCode = 200\<rparr>, None), calls = 3,
        sleeps = [1000000, 2000000], final = 3\<rparr>"
    by (simp add: rs)
  from retry_transport_error_is_retried[OF f(1,3) f1 f(5)]
  have c: "2 < calls (retry_RoundTrip flaky_rt get_test 0)"
    by (simp add: flaky_rt_def)
  from a b c show ?thesis by blast
qed

text \<open>As long as \<open>minWait * 2^attempt\<close> fits \<open>int64\<close>, the wait is the capped exponential
  one, and a run in which every result is retryable makes \<open>maxRetries + 1\<close> calls with
  these waits between them and returns the last result.\<close>

lemma backoff_in_range:
  assumes "- (2 ^ 63) \<le> sint (minWait rt) * 2 ^ attempt"
    and "sint (minWait rt) * 2 ^ attempt < 2 ^ 63"
  shows "sint (backoff rt attempt) = min (sint (minWait rt) * 2 ^ attempt) (sint (maxWait rt))"
proof -
  have "sint (minWait rt * push_bit attempt 1) =
               signed_take_bit 63 (sint (minWait rt) * 2 ^ attempt)"
    using sint_sbintrunc'[where 'a = 64, of "sint (minWait rt) * 2 ^ attempt"]
    by (simp add: push_bit_eq_mult)
  also have "\<dots> = sint (minWait rt) * 2 ^ attempt"
    using assms by (intro signed_take_bit_int_eq_self) simp_all
  finally have w: "sint (minWait rt * push_bit attempt 1) = sint (minWait rt) * 2 ^ attempt" .
  show ?thesis
    using w by (simp add: backoff_def Let_def word_sless_alt min_def)
qed

lemma retry_sleeps_capped_exponential:
  assumes "0 \<le> maxRetries rt"
    and "\<forall>t. retryable rt (fst (base rt req t))"
    and "\<forall>k < nat (maxRetries rt). - (2 ^ 63) \<le> sint (minWait rt) * 2 ^ k
            \<and> sint (minWait rt) * 2 ^ k < 2 ^ 63"
  shows "calls (retry_RoundTrip rt req s) = nat (maxRetries rt) + 1
         \<and> map sint (sleeps (retry_RoundTrip rt req s)) =
             map (\<lambda>k. min (sint (minWait rt) * 2 ^ k) (sint (maxWait rt)))
               [0 ..< nat (maxRetries rt)]
         \<and> result (retry_RoundTrip rt req s) =
             Returned (fst (base rt req (state_after (base rt) req (nat (maxRetries rt)) s)))"
  using assms(3) by (simp add: retry_exhausted[OF assms(1,2)] backoff_in_range)

text \<open>The example of the specification and of \<open>TestRetryRoundTripper\<close>: every answer is 503
  and \<open>maxRetries = 2\<close>; the result is the 503 after three calls.\<close>

lemma retry_stops_after_max_retries:
  "retry_RoundTrip three_strikes_rt get_test 0 =
     \<lparr>result = Returned (Some \<lparr>StatusCode = 503\<rparr>, None), calls = 3,
      sleeps = [1000000, 2000000], final = 3\<rparr>"
  by (simp add: retry_RoundTrip_def three_strikes_rt_def always_status_def retry_loop.simps
        backoff_def shouldRetry_def)

text \<open>
  Claim C2 at \<open>maxRetries = 38\<close> with the default waits (100ms, capped at 2s) and every
  answer 503: the transport makes 39 calls, but the sleep before the last one is not the
  cap. \<open>minWait * 2^37\<close> wraps around in \<open>int64\<close> to a negative duration, which is not
  greater than \<open>maxWait\<close>, so \<open>time.Sleep\<close> gets a negative argument where the claim gives
  \<open>min(minWait * 2^37, maxWait)\<close>, two seconds.
\<close>

theorem retry_backoff_wraps_around:
  "calls (retry_RoundTrip long_backoff_rt get_test 0) = 39
   \<and> sleeps (retry_RoundTrip long_backoff_rt get_test 0) ! 37 = backoff long_backoff_rt 37
   \<and> sint (backoff long_backoff_rt 37) = - 4702848726509551616
   \<and> min (sint (minWait long_backoff_rt) * 2 ^ 37) (sint (maxWait long_backoff_rt))
       = 2000000000"
proof -
  have m: "maxRetries long_backoff_rt = 38"
    by (simp add: long_backoff_rt_def)
  have "\<forall>t. retryable long_backoff_rt (fst (base long_backoff_rt get_test t))"
    by (simp add: long_backoff_rt_def always_status_def retryable_def shouldRetry_def)
  then have r: "retry_RoundTrip long_backoff_rt get_test 0 =
           \<lparr>result = Returned (fst (base long_backoff_rt get_test
                        (state_after (base long_backoff_rt) get_test 38 0))),
            calls = 39,
            sleeps = map (backoff long_backoff_rt) [0 ..< 38],
            final = state_after (base long_backoff_rt) get_test 39 0\<rparr>"
    using retry_exhausted[of long_backoff_rt get_test 0] by (simp add: m)
  have b: "backoff long_backoff_rt 37 = - 4702848726509551616"
    by (simp add: backoff_def long_backoff_rt_def push_bit_eq_mult word_sless_alt)
  have w: "min (sint (minWait long_backoff_rt) * 2 ^ 37) (sint (maxWait long_backoff_rt))
             = 2000000000"
    by (simp add: long_backoff_rt_def)
  have c: "calls (retry_RoundTrip long_backoff_rt get_test 0) = 39"
    by (simp add: r)
  have n: "sleeps (retry_RoundTrip long_backoff_rt get_test 0) ! 37 = backoff long_backoff_rt 37"
    by (simp add: r)
  have i: "sint (backoff long_backoff_rt 37) = - 4702848726509551616"
    by (simp add: b)
  show ?thesis
    by (intro conjI) (rule c n i w)+
qed

section \<open>Properties of the header transport\<close>

text \<open>The loop writes only at the canonical forms of the keys it visits, leaves an entry
  whose first value is not empty as it is, and fills one that reads as empty.\<close>

lemma set_defaults_other:
  "c \<notin> canon ` set ks \<Longrightarrow> set_defaults canon hs ks h c = h c"
  by (induction ks arbitrary: h) (auto simp: Header_Set_def split: option.splits)

lemma set_defaults_keeps:
  "Header_Get canon h k \<noteq> '''' \<Longrightarrow> set_defaults canon hs ks h (canon k) = h (canon k)"
proof (induction ks arbitrary: h)
  case Nil
  then show ?case by simp
next
  case (Cons k' ks)
  show ?case
  proof (cases "hs k'")
    case None
    then show ?thesis using Cons by simp
  next
    case (Some v)
    show ?thesis
    proof (cases "Header_Get canon h k' = ''''")
      case False
      then show ?thesis using Cons Some by simp
    next
      case True
      with Cons.prems have ne: "canon k' \<noteq> canon k"
        by (auto simp: Header_Get_def)
      then have same: "Header_Set canon h k' v (canon k) = h (canon k)"
        by (simp add: Header_Set_def)
      then have "Header_Get canon (Header_Set canon h k' v) k \<noteq> ''''"
        using Cons.prems by (simp add: Header_Get_def)
      from Cons.IH[OF this] same show ?thesis
        using Some True by simp
    qed
  qed
qed

lemma set_defaults_fills:
  assumes "distinct ks" and "inj_on canon (set ks)" and "k \<in> set ks" and "hs k = Some v"
    and "Header_Get canon h k = ''''"
  shows "set_defaults canon hs ks h (canon k) = Some [v]"
  using assms
proof (induction ks arbitrary: h)
  case Nil
  then show ?case by simp
next
  case (Cons k' ks)
  show ?case
  proof (cases "k' = k")
    case True
    with Cons.prems have "canon k \<notin> canon ` set ks"
      by (auto simp: inj_on_def)
    then show ?thesis
      using True Cons.prems by (simp add: set_defaults_other Header_Set_def)
  next
    case False
    with Cons.prems have k: "k \<in> set ks" and ne: "canon k' \<noteq> canon k"
      and d: "distinct ks" and i: "inj_on canon (set ks)"
      by (auto simp: inj_on_def)
    have same: "\<And>v'. Header_Set canon h k' v' (canon k) = h (canon k)"
      using ne by (simp add: Header_Set_def)
    have "\<And>v'. Header_Get canon (Header_Set canon h k' v') k = ''''"
      using Cons.prems(5) same by (simp add: Header_Get_def)
    then show ?thesis
      using Cons.IH[OF d i k Cons.prems(4)] Cons.prems(5)
      by (simp split: option.splits)
  qed
qed

text \<open>
  Claim C5, as stated, fails for a header that the caller has set to the empty string:
  \<open>req.Header.Get(k) == ""\<close> holds for it as for an absent header, so the default replaces
  it. Here the request carries \<open>User-Agent\<close> with the value \<open>""\<close> and goes out with the
  default \<open>volt/1.0\<close>.
\<close>

theorem header_default_overwrites_empty_counterexample:
  "Header agent_request ''User-Agent'' = Some ['''']
   \<and> headers agent_rt ''User-Agent'' = Some ''volt/1.0''
   \<and> header_RoundTrip keep_key agent_rt [''User-Agent''] agent_request None =
       ((Some \<lparr>StatusCode = 200\<rparr>, None),
        Some \<lparr>Method = ''GET'', URL = ''http://test'',
              Header = [''User-Agent'' \<mapsto> [''volt/1.0'']]\<rparr>)"
  by (simp add: header_RoundTrip_def outbound_def agent_rt_def agent_request_def capture_def
        keep_key_def Header_Get_def Header_Set_def)

text \<open>
  Claim C5, amended: whatever the order in which the defaults are visited (no two of them
  being spellings of one header), the request handed to the base transport differs from
  the caller's in its headers only; a header whose value as read by \<open>Header.Get\<close> is not
  empty is left as the caller set it; a default whose header reads as empty on the
  request, absent or with an empty first value, is set to the default value; no other
  header is touched. So \<open>Authorization: Bearer override\<close> goes out unchanged against a
  default \<open>Authorization: Bearer default\<close>.
\<close>

theorem header_defaults_fill_only_empty:
  assumes "range_of ks (headers rt)" and "inj_on canon (dom (headers rt))"
  shows "header_RoundTrip canon rt ks req s = hbase rt (outbound canon rt ks req) s
         \<and> Method (outbound canon rt ks req) = Method req
         \<and> URL (outbound canon rt ks req) = URL req
         \<and> (\<forall>k. Header_Get canon (Header req) k \<noteq> '''' \<longrightarrow>
                Header (outbound canon rt ks req) (canon k) = Header req (canon k))
         \<and> (\<forall>k v. headers rt k = Some v \<and> Header_Get canon (Header req) k = '''' \<longrightarrow>
                Header (outbound canon rt ks req) (canon k) = Some [v])
         \<and> (\<forall>c. c \<notin> canon ` dom (headers rt) \<longrightarrow>
                Header (outbound canon rt ks req) c = Header req c)"
proof -
  from assms have d: "distinct ks" and s: "set ks = dom (headers rt)"
    and i: "inj_on canon (set ks)"
    by (simp_all add: range_of_def)
  have fill: "\<forall>k v. headers rt k = Some v \<and> Header_Get canon (Header req) k = '''' \<longrightarrow>
                Header (outbound canon rt ks req) (canon k) = Some [v]"
  proof (intro allI impI)
    fix k v assume a: "headers rt k = Some v \<and> Header_Get canon (Header req) k = ''''"
    then have "k \<in> set ks" using s by auto
    from set_defaults_fills[OF d i this] a
    show "Header (outbound canon rt ks req) (canon k) = Some [v]"
      by (simp add: outbound_def)
  qed
  show ?thesis
    using fill s
    by (simp add: header_RoundTrip_def outbound_def set_defaults_keeps set_defaults_other)
qed

theorem header_defaults_fill_only_empty_witness:
  "range_of [''Authorization''] (headers auth_rt)
   \<and> inj_on keep_key (dom (headers auth_rt))
   \<and> Header_Get keep_key (Header override_request) ''Authorization'' = ''Bearer override''
   \<and> header_RoundTrip keep_key auth_rt [''Authorization''] override_request None =
       ((Some \<lparr>StatusCode = 200\<rparr>, None),
        Some (outbound keep_key auth_rt [''Authorization''] override_request))
   \<and> Header_Get keep_key
        (Header (outbound keep_key auth_rt [''Authorization''] override_request))
        ''Authorization'' = ''Bearer override''
   \<and> headers auth_rt ''Authorization'' = Some ''Bearer default''
   \<and> Header_Get keep_key (Header get_test) ''Authorization'' = ''''
   \<and> Header_Get keep_key
        (Header (outbound keep_key auth_rt [''Authorization''] get_test))
        ''Authorization'' = ''Bearer default''"
proof -
  have r: "range_of [''Authorization''] (headers auth_rt)"
    by (simp add: range_of_def auth_rt_def)
  have i: "inj_on keep_key (dom (headers auth_rt))"
    by (simp add: auth_rt_def)
  have g: "Header_Get keep_key (Header override_request) ''Authorization'' = ''Bearer override''"
    by (simp add: Header_Get_def override_request_def keep_key_def)
  have d: "headers auth_rt ''Authorization'' = Some ''Bearer default''"
    by (simp add: auth_rt_def)
  have e: "Header_Get keep_key (Header get_test) ''Authorization'' = ''''"
    by (simp add: Header_Get_def get_test_def)
  from header_defaults_fill_only_empty[OF r i, of override_request None]
  have "header_RoundTrip keep_key auth_rt [''Authorization''] override_request None =
          hbase auth_rt (outbound keep_key auth_rt [''Authorization''] override_request) None"
    and "Header (outbound keep_key auth_rt [''Authorization''] override_request)
           (keep_key ''Authorization'') = Header override_request (keep_key ''Authorization'')"
    using g by simp_all
  moreover from header_defaults_fill_only_empty[OF r i, of get_test None]
  have "Header (outbound keep_key auth_rt [''Authorization''] get_test)
           (keep_key ''Authorization'') = Some [''Bearer default'']"
    using d e by blast
  ultimately show ?thesis
    using r i g d e by (simp add: Header_Get_def auth_rt_def capture_def)
qed

section \<open>Properties of the registry\<close>

text \<open>The registry of the examples after \<open>Initialize\<close>: no error, and the instances
  stored under each name.\<close>

lemma shared_booted_eval:
  "fst shared_booted = None"
  "services (fst (snd shared_booted)) ''svc'' = Some \<lparr>name = ''svc'', inst = Str ''plain'', shutdown = None\<rparr>"
  "services (fst (snd shared_booted)) ''api'' = None"
  "map_option h_instance (httpServices (fst (snd shared_booted)) ''svc'') = Some (Obj ''api'' (Ptr 0))"
  "map_option h_instance (httpServices (fst (snd shared_booted)) ''api'') = Some (Obj ''api'' (Ptr 1))"
  "map_option d_instance (dbServices (fst (snd shared_booted)) ''api'') = Some (Ptr 2)"
  "map_option d_instance (dbServices (fst (snd shared_booted)) ''primary'') = Some (Ptr 3)"
  by (simp_all add: shared_booted_def shared_names_def registered_def Initialize_def
        NewRegistry_def Register_def RegisterHTTPService_def RegisterDatabase_def
        createInstrumentedHTTPClient_def createInstrumentedDB_def sql_Open_def db_configure_def pool_update_def SetMaxOpenConns_def SetMaxIdleConns_def SetConnMaxLifetime_def SetConnMaxIdleTime_def maxIdleConnsLocked_def word_sless_alt
        db_PingContext_def db_up_def fresh_def no_otel_def api_client_def pg_config_def
        DefaultDatabaseConfig_def DefaultHTTPServiceConfig_def Let_def)

text \<open>
  Claim C6: for every registry and name, \<open>MustGet\<close> panics if and only if \<open>Get\<close> reports
  not-found, the panic carrying the name; when \<open>Get\<close> reports found, \<open>MustGet\<close> returns the
  value \<open>Get\<close> returns.
\<close>

theorem MustGet_panics_iff_Get_misses:
  "((\<exists>p. MustGet r nm = Inl p) \<longleftrightarrow> \<not> snd (Get r nm))
   \<and> (snd (Get r nm) \<longrightarrow> MustGet r nm = Inr (fst (Get r nm)))
   \<and> (\<not> snd (Get r nm) \<longrightarrow> MustGet r nm = Inl (ServiceNotFound nm))"
  by (cases "Get r nm") (simp add: MustGet_def)

theorem MustGet_panics_iff_Get_misses_witness:
  "snd (Get value_registry ''test'')
   \<and> MustGet value_registry ''test'' = Inr (Str ''value'')
   \<and> \<not> snd (Get value_registry ''unknown'')
   \<and> MustGet value_registry ''unknown'' = Inl (ServiceNotFound ''unknown'')"
proof -
  have f: "Get value_registry ''test'' = (Str ''value'', True)"
    by (simp add: Get_def value_registry_def Register_def NewRegistry_def)
  have u: "Get value_registry ''unknown'' = (Nil, False)"
    by (simp add: Get_def Get_db_def value_registry_def Register_def NewRegistry_def)
  show ?thesis
    using MustGet_panics_iff_Get_misses[of value_registry "''test''"]
      MustGet_panics_iff_Get_misses[of value_registry "''unknown''"]
    by (simp add: f u)
qed

text \<open>
  Claim C7: \<open>Get\<close> has no error result. It reports not-found with a nil value for a name in
  no store, and for a name that is no plain service and whose HTTP and database factories,
  if any, hold no instance yet, as is the case right after \<open>RegisterHTTPService\<close>,
  \<open>RegisterDatabase\<close> or \<open>RegisterDatabaseService\<close>. For a name in several stores the plain
  entry wins whatever the factories hold; without a plain entry a materialized HTTP factory
  wins; a materialized database factory is found only after both.
\<close>

theorem Get_resolution:
  "(services r nm = None \<and> httpServices r nm = None \<and> dbServices r nm = None \<longrightarrow>
      Get r nm = (Nil, False))
   \<and> (services r nm = None \<and> (\<forall>f. httpServices r nm = Some f \<longrightarrow> h_instance f = Nil)
        \<and> (\<forall>g. dbServices r nm = Some g \<longrightarrow> d_instance g = Nil) \<longrightarrow>
      Get r nm = (Nil, False))
   \<and> (services r nm = None \<and> (\<forall>g. dbServices r nm = Some g \<longrightarrow> d_instance g = Nil) \<longrightarrow>
      Get (RegisterHTTPService r nm factory opts) nm = (Nil, False))
   \<and> (services r nm = None \<and> (\<forall>f. httpServices r nm = Some f \<longrightarrow> h_instance f = Nil) \<longrightarrow>
      Get (RegisterDatabase r nm config) nm = (Nil, False)
      \<and> Get (RegisterDatabaseService r nm config dbfactory) nm = (Nil, False))
   \<and> (\<forall>e. services r nm = Some e \<longrightarrow> Get r nm = (inst e, True))
   \<and> (\<forall>f. services r nm = None \<and> httpServices r nm = Some f \<and> h_instance f \<noteq> Nil \<longrightarrow>
          Get r nm = (h_instance f, True))
   \<and> (\<forall>g. services r nm = None \<and> (\<forall>f. httpServices r nm = Some f \<longrightarrow> h_instance f = Nil)
          \<and> dbServices r nm = Some g \<and> d_instance g \<noteq> Nil \<longrightarrow>
          Get r nm = (d_instance g, True))"
  by (auto simp: Get_def Get_db_def RegisterHTTPService_def RegisterDatabase_def
        RegisterDatabaseService_def Let_def split: option.splits)

theorem Get_resolution_witness:
  "Get (registered shared_names) ''nothing'' = (Nil, False)
   \<and> Get (registered shared_names) ''api'' = (Nil, False)
   \<and> Get (fst (snd shared_booted)) ''svc'' = (Str ''plain'', True)
   \<and> Get (fst (snd shared_booted)) ''api'' = (Obj ''api'' (Ptr 1), True)
   \<and> Get (fst (snd shared_booted)) ''primary'' = (Ptr 3, True)"
proof -
  let ?r = "registered shared_names"
  let ?b = "fst (snd shared_booted)"
  have r: "services ?r ''nothing'' = None" "httpServices ?r ''nothing'' = None"
    "dbServices ?r ''nothing'' = None" "services ?r ''api'' = None"
    "\<forall>f. httpServices ?r ''api'' = Some f \<longrightarrow> h_instance f = Nil"
    "\<forall>g. dbServices ?r ''api'' = Some g \<longrightarrow> d_instance g = Nil"
    by (simp_all add: shared_names_def registered_def NewRegistry_def Register_def
          RegisterHTTPService_def RegisterDatabase_def Let_def)
  obtain e where e: "services ?b ''svc'' = Some e" "inst e = Str ''plain''"
    using shared_booted_eval(2) by simp
  obtain f where f: "httpServices ?b ''api'' = Some f" "h_instance f = Obj ''api'' (Ptr 1)"
    using shared_booted_eval(5) by auto
  obtain g where g: "dbServices ?b ''primary'' = Some g" "d_instance g = Ptr 3"
    using shared_booted_eval(7) by auto
  have p: "services ?b ''primary'' = None" "httpServices ?b ''primary'' = None"
    by (simp_all add: shared_booted_def shared_names_def registered_def Initialize_def
        NewRegistry_def Register_def RegisterHTTPService_def RegisterDatabase_def
        createInstrumentedHTTPClient_def createInstrumentedDB_def sql_Open_def db_configure_def pool_update_def SetMaxOpenConns_def SetMaxIdleConns_def SetConnMaxLifetime_def SetConnMaxIdleTime_def maxIdleConnsLocked_def word_sless_alt
        db_PingContext_def db_up_def fresh_def no_otel_def api_client_def pg_config_def
        DefaultDatabaseConfig_def DefaultHTTPServiceConfig_def Let_def)
  show ?thesis
    using Get_resolution[of ?r "''nothing''"] Get_resolution[of ?r "''api''"]
      Get_resolution[of ?b "''svc''"] Get_resolution[of ?b "''api''"]
      Get_resolution[of ?b "''primary''"] r e f g p shared_booted_eval(3)
    by simp
qed

text \<open>Each registration call writes its own store, and \<open>Register\<close> also the order list.\<close>

lemma plain_names_append [simp]: "plain_names (xs @ ys) = plain_names xs @ plain_names ys"
  by (induction xs rule: plain_names.induct) simp_all

lemma http_names_append [simp]: "http_names (xs @ ys) = http_names xs @ http_names ys"
  by (induction xs rule: http_names.induct) simp_all

lemma db_names_append [simp]: "db_names (xs @ ys) = db_names xs @ db_names ys"
  by (induction xs rule: db_names.induct) simp_all

lemma registered_snoc: "registered (regs @ [x]) = register (registered regs) x"
  by (simp add: registered_def)

lemma register_stores:
  "dom (services (register r x)) = dom (services r) \<union> set (plain_names [x])"
  "dom (httpServices (register r x)) = dom (httpServices r) \<union> set (http_names [x])"
  "dom (dbServices (register r x)) = dom (dbServices r) \<union> set (db_names [x])"
  "order (register r x) = order r @ plain_names [x]"
  by (cases x; auto simp: Register_def RegisterHTTPService_def RegisterDatabase_def
        RegisterDatabaseService_def Let_def)+

text \<open>
  Claim C8, as stated, fails: \<open>Register\<close> and \<open>RegisterDatabase\<close> called with the same name
  leave that name in the plain store and in the database store at once.
\<close>

theorem name_in_two_stores_counterexample:
  "services twice_named ''db'' = Some \<lparr>name = ''db'', inst = Str ''cache'', shutdown = None\<rparr>
   \<and> dbServices twice_named ''db'' =
       Some \<lparr>d_name = ''db'', d_config = pg_config, d_factory = None, d_instance = Nil,
             db = None\<rparr>"
  by (simp add: twice_named_def registered_def NewRegistry_def Register_def RegisterDatabase_def)

text \<open>
  Claim C8, amended: each store is a map, so a name is a key of it at most once. After any
  sequence of registration calls on a new registry the keys of the plain store are exactly
  the names given to \<open>Register\<close>, those of the HTTP store the names given to
  \<open>RegisterHTTPService\<close>, those of the database store the names given to \<open>RegisterDatabase\<close>
  or \<open>RegisterDatabaseService\<close>, and the order list holds the names given to \<open>Register\<close>
  in the order of the calls. No call looks at another store, so a name registered in two
  ways is in both stores.
\<close>

theorem stores_hold_what_was_registered:
  "dom (services (registered regs)) = set (plain_names regs)
   \<and> dom (httpServices (registered regs)) = set (http_names regs)
   \<and> dom (dbServices (registered regs)) = set (db_names regs)
   \<and> order (registered regs) = plain_names regs"
proof (induction regs rule: rev_induct)
  case Nil
  then show ?case by (simp add: registered_def NewRegistry_def)
next
  case (snoc x regs)
  then show ?case
    by (simp add: registered_snoc register_stores)
qed

section \<open>Properties of Shutdown\<close>

text \<open>With distinct names, the entry stored under the name of a registration holds the hook
  of that registration; walking the order list from its end runs the hooks from the last
  registered to the first; the second loop closes the pool of every factory that has one.\<close>

lemma plain_hooks_append [simp]: "plain_hooks (xs @ ys) = plain_hooks xs @ plain_hooks ys"
  by (induction xs rule: plain_hooks.induct) simp_all








text \<open>\<open>Initialize\<close> writes neither the plain store nor the order list.\<close>

lemma init_http_plain:
  "services (fst (init_http app hs (r, w))) = services r
   \<and> order (fst (init_http app hs (r, w))) = order r
   \<and> dbServices (fst (init_http app hs (r, w))) = dbServices r"
  by (induction hs arbitrary: r w) (auto split: option.splits prod.splits)

lemma init_db_plain:
  "services (fst (snd (init_db env ctx app ds (r, w)))) = services r
   \<and> order (fst (snd (init_db env ctx app ds (r, w)))) = order r
   \<and> httpServices (fst (snd (init_db env ctx app ds (r, w)))) = httpServices r"
  by (induction ds arbitrary: r w) (auto split: option.splits prod.splits sum.splits)



section \<open>Properties of Initialize\<close>




lemma init_http_world:
  "closes (snd (init_http app hs (r, w))) = closes w
   \<and> user (snd (init_http app hs (r, w))) = user w
   \<and> pools (snd (init_http app hs (r, w))) = pools w
   \<and> next_addr w \<le> next_addr (snd (init_http app hs (r, w)))"
proof (induction hs arbitrary: r w)
  case Nil
  then show ?case by simp
next
  case (Cons k ks)
  show ?case
  proof (cases "httpServices r k")
    case None
    then show ?thesis using Cons by simp
  next
    case (Some f)
    obtain c w1 where c: "createInstrumentedHTTPClient app (h_config f) k w = (c, w1)"
      by (cases "createInstrumentedHTTPClient app (h_config f) k w")
    then have w1: "closes w1 = closes w" "user w1 = user w" "pools w1 = pools w"
      "next_addr w1 = Suc (next_addr w)"
      by (auto simp: createInstrumentedHTTPClient_def Let_def)
    let ?r1 = "r\<lparr>httpServices := (httpServices r)(k \<mapsto>
                 f\<lparr>httpClient := Some c, h_instance := h_factory f c\<rparr>)\<rparr>"
    from Cons[of ?r1 w1] w1 show ?thesis
      using Some c by simp
  qed
qed





text \<open>Each loop rewrites the factory of every name it visits and no other.\<close>

lemma init_http_other:
  "nm \<notin> set hs \<Longrightarrow> httpServices (fst (init_http app hs (r, w))) nm = httpServices r nm"
proof (induction hs arbitrary: r w)
  case Nil
  then show ?case by simp
next
  case (Cons k ks)
  then have ne: "k \<noteq> nm" and nin: "nm \<notin> set ks" by auto
  show ?case
  proof (cases "httpServices r k")
    case None
    then show ?thesis using Cons.IH[OF nin] by simp
  next
    case (Some f)
    obtain c w1 where c: "createInstrumentedHTTPClient app (h_config f) k w = (c, w1)"
      by (cases "createInstrumentedHTTPClient app (h_config f) k w")
    show ?thesis
      using Some c ne Cons.IH[OF nin] by simp
  qed
qed

lemma init_http_sets:
  assumes "distinct hs" and "nm \<in> set hs" and "httpServices r nm = Some f"
  shows "\<exists>cl. httpServices (fst (init_http app hs (r, w))) nm =
                Some (f\<lparr>httpClient := Some cl, h_instance := h_factory f cl\<rparr>)
              \<and> next_addr w \<le> c_addr cl"
  using assms
proof (induction hs arbitrary: r w)
  case Nil
  then show ?case by simp
next
  case (Cons k ks)
  show ?case
  proof (cases "k = nm")
    case True
    obtain c w1 where c: "createInstrumentedHTTPClient app (h_config f) nm w = (c, w1)"
      by (cases "createInstrumentedHTTPClient app (h_config f) nm w")
    then have a: "c_addr c = next_addr w"
      by (auto simp: createInstrumentedHTTPClient_def Let_def)
    let ?r1 = "r\<lparr>httpServices := (httpServices r)(nm \<mapsto>
                 f\<lparr>httpClient := Some c, h_instance := h_factory f c\<rparr>)\<rparr>"
    from Cons.prems True have "nm \<notin> set ks" by simp
    from init_http_other[OF this, of app ?r1 w1]
    have "httpServices (fst (init_http app ks (?r1, w1))) nm =
            Some (f\<lparr>httpClient := Some c, h_instance := h_factory f c\<rparr>)"
      by simp
    moreover have "init_http app (k # ks) (r, w) = init_http app ks (?r1, w1)"
      using True Cons.prems(3) c by simp
    ultimately show ?thesis
      using a by (intro exI[of _ c]) simp
  next
    case False
    with Cons.prems have d: "distinct ks" and m: "nm \<in> set ks" by auto
    show ?thesis
    proof (cases "httpServices r k")
      case None
      then show ?thesis using Cons.IH[OF d m Cons.prems(3), of w] by simp
    next
      case (Some f')
      obtain c w1 where c: "createInstrumentedHTTPClient app (h_config f') k w = (c, w1)"
        by (cases "createInstrumentedHTTPClient app (h_config f') k w")
      then have n: "next_addr w \<le> next_addr w1"
        by (auto simp: createInstrumentedHTTPClient_def Let_def)
      let ?r1 = "r\<lparr>httpServices := (httpServices r)(k \<mapsto>
                   f'\<lparr>httpClient := Some c, h_instance := h_factory f' c\<rparr>)\<rparr>"
      have "httpServices ?r1 nm = Some f" using False Cons.prems(3) by simp
      from Cons.IH[OF d m this, of w1] obtain cl where
        "httpServices (fst (init_http app ks (?r1, w1))) nm =
           Some (f\<lparr>httpClient := Some cl, h_instance := h_factory f cl\<rparr>)"
        "next_addr w1 \<le> c_addr cl"
        by blast
      then show ?thesis
        using Some c n by (intro exI[of _ cl]) simp
    qed
  qed
qed

lemma createInstrumentedDB_Inr:
  assumes "createInstrumentedDB env ctx app config nm w = (Inr a, w')"
  shows "a = next_addr w \<and> next_addr w' = Suc (next_addr w)"
  using assms
  by (auto simp: createInstrumentedDB_def sql_Open_def db_configure_def pool_update_def SetMaxOpenConns_def SetMaxIdleConns_def SetConnMaxLifetime_def SetConnMaxIdleTime_def maxIdleConnsLocked_def word_sless_alt Let_def
        split: option.splits)

lemma init_db_other:
  "nm \<notin> set ds \<Longrightarrow> dbServices (fst (snd (init_db env ctx app ds (r, w)))) nm = dbServices r nm"
proof (induction ds arbitrary: r w)
  case Nil
  then show ?case by simp
next
  case (Cons k ks)
  then have ne: "k \<noteq> nm" and nin: "nm \<notin> set ks" by auto
  show ?case
  proof (cases "dbServices r k")
    case None
    then show ?thesis using Cons.IH[OF nin] by simp
  next
    case (Some g)
    obtain res w1 where c: "createInstrumentedDB env ctx app (d_config g) k w = (res, w1)"
      by (cases "createInstrumentedDB env ctx app (d_config g) k w")
    show ?thesis
      using Some c ne Cons.IH[OF nin] by (cases res) simp_all
  qed
qed

lemma init_db_sets:
  assumes "distinct ds" and "nm \<in> set ds" and "dbServices r nm = Some g"
    and "fst (init_db env ctx app ds (r, w)) = None"
  shows "\<exists>a. dbServices (fst (snd (init_db env ctx app ds (r, w)))) nm =
               Some (g\<lparr>db := Some a,
                       d_instance := (case d_factory g of Some f \<Rightarrow> f a | None \<Rightarrow> Ptr a)\<rparr>)
             \<and> next_addr w \<le> a"
  using assms
proof (induction ds arbitrary: r w)
  case Nil
  then show ?case by simp
next
  case (Cons k ks)
  show ?case
  proof (cases "dbServices r k")
    case None
    with Cons.prems have "k \<noteq> nm" by auto
    with Cons.prems have "distinct ks" "nm \<in> set ks" by auto
    from Cons.IH[OF this Cons.prems(3), of w] Cons.prems(4) None show ?thesis by simp
  next
    case (Some g')
    obtain res w1 where c: "createInstrumentedDB env ctx app (d_config g') k w = (res, w1)"
      by (cases "createInstrumentedDB env ctx app (d_config g') k w")
    show ?thesis
    proof (cases res)
      case (Inl err)
      with Cons.prems(4) Some c show ?thesis by simp
    next
      case (Inr a)
      with c createInstrumentedDB_Inr[of env ctx app "d_config g'" k w a w1]
      have a: "a = next_addr w" "next_addr w1 = Suc (next_addr w)" by simp_all
      let ?g = "g'\<lparr>db := Some a,
                   d_instance := (case d_factory g' of Some f \<Rightarrow> f a | None \<Rightarrow> Ptr a)\<rparr>"
      let ?r1 = "r\<lparr>dbServices := (dbServices r)(k \<mapsto> ?g)\<rparr>"
      have step: "init_db env ctx app (k # ks) (r, w) = init_db env ctx app ks (?r1, w1)"
        using Some c Inr by simp
      show ?thesis
      proof (cases "k = nm")
        case True
        with Cons.prems have nin: "nm \<notin> set ks" and gg: "g' = g" using Some by auto
        from init_db_other[OF nin, of env ctx app ?r1 w1]
        have "dbServices (fst (snd (init_db env ctx app ks (?r1, w1)))) nm =
                Some (g\<lparr>db := Some a,
                        d_instance := (case d_factory g of Some f \<Rightarrow> f a | None \<Rightarrow> Ptr a)\<rparr>)"
          using True gg by simp
        then show ?thesis
          unfolding step using a by (intro exI[of _ a]) simp
      next
        case False
        with Cons.prems have d: "distinct ks" and m: "nm \<in> set ks" by auto
        have e: "dbServices ?r1 nm = Some g" using False Cons.prems(3) by simp
        have n: "fst (init_db env ctx app ks (?r1, w1)) = None"
          using Cons.prems(4) step by simp
        from Cons.IH[OF d m e n] obtain a' where
          "dbServices (fst (snd (init_db env ctx app ks (?r1, w1)))) nm =
             Some (g\<lparr>db := Some a',
                     d_instance := (case d_factory g of Some f \<Rightarrow> f a' | None \<Rightarrow> Ptr a')\<rparr>)"
          "next_addr w1 \<le> a'"
          by blast
        then show ?thesis
          unfolding step using a by (intro exI[of _ a']) simp
      qed
    qed
  qed
qed

text \<open>
  Claim C9, as stated, fails: a second call of \<open>Initialize\<close> builds a new client, runs the
  constructor again and stores its result over the instance of the first call; and
  registering the name again stores a factory without instance.
\<close>

theorem materialized_instance_replaced_counterexample:
  "map_option h_instance (httpServices (fst (snd api_once)) ''api'') = Some (Obj ''api'' (Ptr 0))
   \<and> map_option h_instance (httpServices (fst (snd api_again)) ''api'') = Some (Obj ''api'' (Ptr 1))
   \<and> map_option h_instance
       (httpServices (RegisterHTTPService (fst (snd api_once)) ''api'' api_client []) ''api'')
       = Some Nil"
  by (simp add: api_again_def api_once_def api_only_def registered_def Initialize_def
        NewRegistry_def RegisterHTTPService_def createInstrumentedHTTPClient_def
        db_up_def fresh_def no_otel_def api_client_def DefaultHTTPServiceConfig_def Let_def)

text \<open>
  Claim C9, amended: the factory stored under a name, and so its instance, is left as it is
  by \<open>Register\<close> and by the registration of a factory of the other kind or under another
  name (\<open>Get\<close>, \<open>MustGet\<close> and \<open>Shutdown\<close> return no registry: they do not write it). It is
  replaced by a factory without instance when its name is registered again, and every call
  of \<open>Initialize\<close> stores, for each HTTP factory, the result of the constructor on a newly
  allocated client over the instance held before, and, when it returns no error, for each
  database factory the instance built on a newly opened pool.
\<close>

theorem instance_kept_except_by_initialize:
  "httpServices (Register r n i hook) = httpServices r
   \<and> dbServices (Register r n i hook) = dbServices r
   \<and> dbServices (RegisterHTTPService r n c opts) = dbServices r
   \<and> httpServices (RegisterDatabase r n cfg) = httpServices r
   \<and> httpServices (RegisterDatabaseService r n cfg dbf) = httpServices r
   \<and> (n \<noteq> nm \<longrightarrow>
        httpServices (RegisterHTTPService r n c opts) nm = httpServices r nm
        \<and> dbServices (RegisterDatabase r n cfg) nm = dbServices r nm
        \<and> dbServices (RegisterDatabaseService r n cfg dbf) nm = dbServices r nm)
   \<and> map_option h_instance (httpServices (RegisterHTTPService r nm c opts) nm) = Some Nil
   \<and> map_option d_instance (dbServices (RegisterDatabase r nm cfg) nm) = Some Nil
   \<and> map_option d_instance (dbServices (RegisterDatabaseService r nm cfg dbf) nm) = Some Nil
   \<and> (\<forall>f. range_of hs (httpServices r) \<and> httpServices r nm = Some f \<longrightarrow>
          (\<exists>cl. httpServices (fst (snd (Initialize env ctx app hs ds r w))) nm =
                  Some (f\<lparr>httpClient := Some cl, h_instance := h_factory f cl\<rparr>)
                \<and> next_addr w \<le> c_addr cl))
   \<and> (\<forall>g. range_of ds (dbServices r) \<and> dbServices r nm = Some g
          \<and> fst (Initialize env ctx app hs ds r w) = None \<longrightarrow>
          (\<exists>a. dbServices (fst (snd (Initialize env ctx app hs ds r w))) nm =
                  Some (g\<lparr>db := Some a,
                          d_instance := (case d_factory g of Some f \<Rightarrow> f a | None \<Rightarrow> Ptr a)\<rparr>)
               \<and> next_addr w \<le> a))"
proof -
  obtain r1 w1 where h: "init_http app hs (r, w) = (r1, w1)"
    by (cases "init_http app hs (r, w)")
  have i: "Initialize env ctx app hs ds r w = init_db env ctx app ds (r1, w1)"
    by (simp add: Initialize_def h)
  have http: "\<forall>f. range_of hs (httpServices r) \<and> httpServices r nm = Some f \<longrightarrow>
          (\<exists>cl. httpServices (fst (snd (Initialize env ctx app hs ds r w))) nm =
                  Some (f\<lparr>httpClient := Some cl, h_instance := h_factory f cl\<rparr>)
                \<and> next_addr w \<le> c_addr cl)"
  proof (intro allI impI)
    fix f assume a: "range_of hs (httpServices r) \<and> httpServices r nm = Some f"
    then have "distinct hs" "nm \<in> set hs" by (auto simp: range_of_def)
    from init_http_sets[OF this, of r f app w] a h obtain cl where
      "httpServices r1 nm = Some (f\<lparr>httpClient := Some cl, h_instance := h_factory f cl\<rparr>)"
      "next_addr w \<le> c_addr cl" by auto
    with init_db_plain[of env ctx app ds r1 w1]
    show "\<exists>cl. httpServices (fst (snd (Initialize env ctx app hs ds r w))) nm =
                  Some (f\<lparr>httpClient := Some cl, h_instance := h_factory f cl\<rparr>)
                \<and> next_addr w \<le> c_addr cl"
      by (intro exI[of _ cl]) (simp add: i)
  qed
  have dbs: "\<forall>g. range_of ds (dbServices r) \<and> dbServices r nm = Some g
          \<and> fst (Initialize env ctx app hs ds r w) = None \<longrightarrow>
          (\<exists>a. dbServices (fst (snd (Initialize env ctx app hs ds r w))) nm =
                  Some (g\<lparr>db := Some a,
                          d_instance := (case d_factory g of Some f \<Rightarrow> f a | None \<Rightarrow> Ptr a)\<rparr>)
               \<and> next_addr w \<le> a)"
  proof (intro allI impI)
    fix g assume a: "range_of ds (dbServices r) \<and> dbServices r nm = Some g
          \<and> fst (Initialize env ctx app hs ds r w) = None"
    then have d: "distinct ds" "nm \<in> set ds" by (auto simp: range_of_def)
    from init_http_plain[of app hs r w] h a have g: "dbServices r1 nm = Some g" by simp
    from a have n: "fst (init_db env ctx app ds (r1, w1)) = None" by (simp add: i)
    from init_http_world[of app hs r w] h have le: "next_addr w \<le> next_addr w1" by simp
    from init_db_sets[OF d g n] obtain a where
      "dbServices (fst (snd (init_db env ctx app ds (r1, w1)))) nm =
         Some (g\<lparr>db := Some a,
                 d_instance := (case d_factory g of Some f \<Rightarrow> f a | None \<Rightarrow> Ptr a)\<rparr>)"
      "next_addr w1 \<le> a" by blast
    with le show "\<exists>a. dbServices (fst (snd (Initialize env ctx app hs ds r w))) nm =
                  Some (g\<lparr>db := Some a,
                          d_instance := (case d_factory g of Some f \<Rightarrow> f a | None \<Rightarrow> Ptr a)\<rparr>)
               \<and> next_addr w \<le> a"
      by (intro exI[of _ a]) (simp add: i)
  qed
  have regs: "httpServices (Register r n i hook) = httpServices r
   \<and> dbServices (Register r n i hook) = dbServices r
   \<and> dbServices (RegisterHTTPService r n c opts) = dbServices r
   \<and> httpServices (RegisterDatabase r n cfg) = httpServices r
   \<and> httpServices (RegisterDatabaseService r n cfg dbf) = httpServices r
   \<and> (n \<noteq> nm \<longrightarrow>
        httpServices (RegisterHTTPService r n c opts) nm = httpServices r nm
        \<and> dbServices (RegisterDatabase r n cfg) nm = dbServices r nm
        \<and> dbServices (RegisterDatabaseService r n cfg dbf) nm = dbServices r nm)
   \<and> map_option h_instance (httpServices (RegisterHTTPService r nm c opts) nm) = Some Nil
   \<and> map_option d_instance (dbServices (RegisterDatabase r nm cfg) nm) = Some Nil
   \<and> map_option d_instance (dbServices (RegisterDatabaseService r nm cfg dbf) nm) = Some Nil"
    by (simp add: Register_def RegisterHTTPService_def RegisterDatabase_def
          RegisterDatabaseService_def Let_def)
  from regs http dbs show ?thesis by blast
qed

theorem instance_kept_except_by_initialize_witness:
  "range_of [''api''] (httpServices (fst (snd api_once)))
   \<and> ''other'' \<noteq> ''api''
   \<and> httpServices (RegisterHTTPService (fst (snd api_once)) ''other'' api_client []) ''api''
       = httpServices (fst (snd api_once)) ''api''
   \<and> (\<exists>cl. map_option h_instance (httpServices (fst (snd api_again)) ''api'')
               = Some (api_client cl)
            \<and> next_addr (snd (snd api_once)) \<le> c_addr cl)
   \<and> range_of [''primary''] (dbServices (registered three_services))
   \<and> fst three_booted = None
   \<and> (\<exists>a. map_option d_instance (dbServices (fst (snd three_booted)) ''primary'')
              = Some (Ptr a))"
proof -
  let ?r = "fst (snd api_once)" and ?w = "snd (snd api_once)"
  have e: "dom (httpServices ?r) = {''api''}"
    "\<exists>f. httpServices ?r ''api'' = Some f \<and> h_factory f = api_client"
    by (simp_all add: api_once_def api_only_def registered_def Initialize_def
        NewRegistry_def RegisterHTTPService_def createInstrumentedHTTPClient_def Let_def)
  then obtain f where f: "httpServices ?r ''api'' = Some f" "h_factory f = api_client"
    by blast
  have r: "range_of [''api''] (httpServices ?r)"
    using e by (simp add: range_of_def)
  note t = instance_kept_except_by_initialize[where r = ?r and n = "''other''"
      and nm = "''api''" and hs = "[''api'']" and ds = "[]" and env = db_up
      and ctx = Background and app = no_otel and w = ?w and c = api_client and opts = "[]",
      folded api_again_def]
  from t have other:
    "httpServices (RegisterHTTPService ?r ''other'' api_client []) ''api'' = httpServices ?r ''api''"
    by simp
  from t r f obtain cl where
    "httpServices (fst (snd api_again)) ''api'' =
       Some (f\<lparr>httpClient := Some cl, h_instance := h_factory f cl\<rparr>)"
    "next_addr ?w \<le> c_addr cl"
    by blast
  then have again: "\<exists>cl. map_option h_instance (httpServices (fst (snd api_again)) ''api'')
               = Some (api_client cl) \<and> next_addr ?w \<le> c_addr cl"
    using f by (intro exI[of _ cl]) simp
  let ?g = "\<lparr>d_name = ''primary'', d_config = pg_config, d_factory = None,
             d_instance = Nil, db = None\<rparr>"
  have d: "dom (dbServices (registered three_services)) = {''primary''}"
    "dbServices (registered three_services) ''primary'' = Some ?g"
    by (simp_all add: three_services_def registered_def NewRegistry_def Register_def
          RegisterDatabase_def)
  then have rd: "range_of [''primary''] (dbServices (registered three_services))"
    by (simp add: range_of_def)
  have n: "fst three_booted = None"
    by (simp add: three_booted_def three_services_def registered_def Initialize_def
        NewRegistry_def Register_def RegisterDatabase_def
        createInstrumentedDB_def sql_Open_def db_configure_def pool_update_def SetMaxOpenConns_def SetMaxIdleConns_def SetConnMaxLifetime_def SetConnMaxIdleTime_def maxIdleConnsLocked_def word_sless_alt
        db_PingContext_def close_fails_def fresh_def pg_config_def
        DefaultDatabaseConfig_def)
  note u = instance_kept_except_by_initialize[where r = "registered three_services"
      and nm = "''primary''" and hs = "[]" and ds = "[''primary'']" and env = close_fails
      and ctx = Background and app = no_otel and w = fresh,
      folded three_booted_def]
  from u rd d(2) n obtain a where
    "dbServices (fst (snd three_booted)) ''primary'' =
       Some (?g\<lparr>db := Some a,
               d_instance := (case d_factory ?g of Some f \<Rightarrow> f a | None \<Rightarrow> Ptr a)\<rparr>)"
    by blast
  then have booted: "\<exists>a. map_option d_instance (dbServices (fst (snd three_booted)) ''primary'')
              = Some (Ptr a)"
    by (intro exI[of _ a]) simp
  show ?thesis
    using r other again rd n booted by simp
qed

section \<open>Properties of the rate limit store\<close>

text \<open>
  Claim C10: for every key, limit and window, and at every time, the bundled store allows
  the request, with the whole limit remaining and a reset time one window after the current
  time, \<open>now + window\<close> in nanoseconds; it keeps no state, so the answer does not depend
  on earlier calls. \<open>RateLimit\<close>
  without a store behaves as with the bundled store: it never answers 429 and hands every
  request to the next handler, after setting the three rate limit headers from the limit
  and from the current time plus the window.
\<close>

theorem in_memory_store_always_allows:
  "InMemoryRateLimitStore_Allow now key limit window = (True, limit, now + sint window)
   \<and> Allow InMemoryRateLimitStore now key limit window st =
       ((True, limit, now + sint window), st)
   \<and> RateLimit canon rune_string rfc3339 now (config\<lparr>Store := None\<rparr>) next w r st =
       RateLimit canon rune_string rfc3339 now (config\<lparr>Store := Some InMemoryRateLimitStore\<rparr>)
         next w r st
   \<and> RateLimit canon rune_string rfc3339 now (config\<lparr>Store := None\<rparr>) next w r st =
       next
         (w\<lparr>rw_header :=
              Header_Set canon
                (Header_Set canon
                   (Header_Set canon (rw_header w) ''X-RateLimit-Limit''
                      (rune_string (Requests config)))
                   ''X-RateLimit-Remaining'' (rune_string (Requests config)))
                ''X-RateLimit-Reset'' (rfc3339 (now + sint (Window config)))\<rparr>)
         r st"
  by (simp add: InMemoryRateLimitStore_Allow_def Time_Add_def RateLimit_def Let_def)

text \<open>The case of \<open>TestRateLimitConfig\<close>, limit 10 and window 0, and a window of one minute
  at the instant 1000: the reset time is 60000001000.\<close>

lemma in_memory_store_test:
  "InMemoryRateLimitStore_Allow now ''test-key'' 10 0 = (True, 10, now)"
  by (simp add: InMemoryRateLimitStore_Allow_def Time_Add_def)

lemma in_memory_store_minute:
  "InMemoryRateLimitStore_Allow 1000 ''test-key'' 10 60000000000 = (True, 10, 60000001000)"
  by (simp add: InMemoryRateLimitStore_Allow_def Time_Add_def)

end
